theory Spec2Isabelle
  imports Main "HOL-Library.Sublist"
begin

section \<open>Strings and paths (Go standard library, Unix build)\<close>

text \<open>
  A Go string is a sequence of bytes, here a \<open>char list\<close>.  The functions of this
  section are the ones the repository calls from \<^verbatim>\<open>strings\<close> and
  \<^verbatim>\<open>path/filepath\<close>; they are written after the library's own code for a Unix
  target (separator \<^verbatim>\<open>/\<close>, no volume names).
\<close>

definition asciiLower :: "char \<Rightarrow> char" where
  "asciiLower c =
     (case map_of (zip ''ABCDEFGHIJKLMNOPQRSTUVWXYZ'' ''abcdefghijklmnopqrstuvwxyz'') c of
        Some l \<Rightarrow> l
      | None \<Rightarrow> c)"

definition isUpperASCII :: "char \<Rightarrow> bool" where
  "isUpperASCII c = (c \<in> set ''ABCDEFGHIJKLMNOPQRSTUVWXYZ'')"

text \<open>
  \<^verbatim>\<open>strings.ToLower\<close>: a string of bytes below \<^verbatim>\<open>utf8.RuneSelf\<close> (0x80) is
  lowered byte by byte (\<^verbatim>\<open>c += 'a' - 'A'\<close> for \<^verbatim>\<open>'A' <= c <= 'Z'\<close>); any other
  string goes through \<^verbatim>\<open>strings.Map(unicode.ToLower, s)\<close>, whose Unicode case
  tables are not part of the repository: that map is the parameter \<open>unicodeLower\<close>.
\<close>

definition ToLower :: "(string \<Rightarrow> string) \<Rightarrow> string \<Rightarrow> string" where
  "ToLower unicodeLower s =
     (if list_all (\<lambda>c. \<not> digit7 c) s then map asciiLower s else unicodeLower s)"

definition IsPathSeparator :: "char \<Rightarrow> bool" where
  "IsPathSeparator c = (c = CHR ''/'')"

text \<open>
  \<^verbatim>\<open>filepath.Clean\<close>.  The library reads the path at index \<open>r\<close> and writes a buffer
  of \<open>w\<close> bytes; here the unread rest of the path and the buffer are lists, and
  \<open>dotdot\<close> is the length of the buffer's part that \<^verbatim>\<open>..\<close> may not remove.
\<close>

fun backtrack :: "string \<Rightarrow> nat \<Rightarrow> nat \<Rightarrow> nat" where
  "backtrack out dotdot w =
     (if w > dotdot \<and> \<not> IsPathSeparator (out ! w) then backtrack out dotdot (w - 1) else w)"

declare backtrack.simps [simp del]

function clean_loop :: "bool \<Rightarrow> string \<Rightarrow> string \<Rightarrow> nat \<Rightarrow> string" where
  "clean_loop rooted [] out dotdot = out"
| "clean_loop rooted (c # p) out dotdot =
     (if IsPathSeparator c then clean_loop rooted p out dotdot
      else if c = CHR ''.'' \<and> (p = [] \<or> IsPathSeparator (hd p)) then
        clean_loop rooted p out dotdot
      else if c = CHR ''.'' \<and> p \<noteq> [] \<and> hd p = CHR ''.''
              \<and> (tl p = [] \<or> IsPathSeparator (hd (tl p))) then
        (if length out > dotdot then
           clean_loop rooted (tl p) (take (backtrack out dotdot (length out - 1)) out) dotdot
         else if \<not> rooted then
           clean_loop rooted (tl p) ((if length out > 0 then out @ ''/'' else out) @ ''..'')
             (length ((if length out > 0 then out @ ''/'' else out) @ ''..''))
         else clean_loop rooted (tl p) out dotdot)
      else
        clean_loop rooted (dropWhile (\<lambda>x. \<not> IsPathSeparator x) p)
          ((if rooted \<and> length out \<noteq> 1 \<or> \<not> rooted \<and> length out \<noteq> 0 then out @ ''/'' else out)
             @ c # takeWhile (\<lambda>x. \<not> IsPathSeparator x) p)
          dotdot)"
  by pat_completeness auto
termination
proof (relation "measure (\<lambda>(rooted, p, out, dotdot). length p)")
  show "wf (measure (\<lambda>(rooted, p, out, dotdot). length p))"
    by simp
next
  fix rooted :: bool and c :: char and p out :: string and dotdot :: nat
  have "length (dropWhile (\<lambda>x. \<not> IsPathSeparator x) p) \<le> length p"
    by (rule length_dropWhile_le)
  then show "((rooted, dropWhile (\<lambda>x. \<not> IsPathSeparator x) p,
                (if rooted \<and> length out \<noteq> 1 \<or> \<not> rooted \<and> length out \<noteq> 0 then out @ ''/'' else out)
                  @ c # takeWhile (\<lambda>x. \<not> IsPathSeparator x) p, dotdot),
               (rooted, c # p, out, dotdot))
             \<in> measure (\<lambda>(rooted, p, out, dotdot). length p)"
    by simp
qed (auto simp: less_Suc_eq_le intro: le_trans [OF diff_le_self])

definition Clean :: "string \<Rightarrow> string" where
  "Clean path =
     (if path = [] then ''.''
      else
        let out = (if IsPathSeparator (hd path) then clean_loop True (tl path) ''/'' 1
                   else clean_loop False path [] 0)
        in if out = [] then ''.'' else out)"

text \<open>
  \<^verbatim>\<open>filepath.Dir\<close>: everything up to and including the last separator, cleaned.
\<close>

definition Dir :: "string \<Rightarrow> string" where
  "Dir path = Clean (rev (dropWhile (\<lambda>c. \<not> IsPathSeparator c) (rev path)))"

text \<open>
  \<^verbatim>\<open>filepath.Base\<close>: trailing separators are stripped, then the part after the last
  separator is returned; the empty path gives \<^verbatim>\<open>.\<close>, a path of separators gives
  \<^verbatim>\<open>/\<close>.
\<close>

definition Base :: "string \<Rightarrow> string" where
  "Base path =
     (if path = [] then ''.''
      else
        let stripped = rev (dropWhile IsPathSeparator (rev path));
            elem = rev (takeWhile (\<lambda>c. \<not> IsPathSeparator c) (rev stripped))
        in if elem = [] then ''/'' else elem)"

definition IsAbs :: "string \<Rightarrow> bool" where
  "IsAbs path = (case path of [] \<Rightarrow> False | c # _ \<Rightarrow> c = CHR ''/'')"

fun strings_Join :: "string list \<Rightarrow> string \<Rightarrow> string" where
  "strings_Join [] sep = []"
| "strings_Join [e] sep = e"
| "strings_Join (e # es) sep = e @ sep @ strings_Join es sep"

text \<open>
  \<^verbatim>\<open>filepath.Join\<close>: the elements from the first non-empty one on, joined by the
  separator and cleaned; the empty string when every element is empty.
\<close>

definition Join :: "string list \<Rightarrow> string" where
  "Join elem =
     (case dropWhile (\<lambda>e. e = []) elem of
        [] \<Rightarrow> []
      | es \<Rightarrow> Clean (strings_Join es ''/''))"

section \<open>Errors\<close>

text \<open>
  A Go \<^verbatim>\<open>error\<close> value.  \<open>ErrorString m\<close> is an error with message \<open>m\<close> and
  nothing wrapped (\<^verbatim>\<open>fmt.Errorf\<close> without \<^verbatim>\<open>%w\<close>, or an error of the operating
  system or of the remote API); \<open>Errorf m e\<close> is \<^verbatim>\<open>fmt.Errorf(m + "%w", e)\<close>;
  \<open>ErrNotExist\<close> is an operating-system error for which \<^verbatim>\<open>os.IsNotExist\<close> holds;
  \<open>SyntaxError\<close> and \<open>UnmarshalTypeError\<close> are the two errors of
  \<^verbatim>\<open>encoding/json\<close>.
\<close>

datatype error =
    ErrorString string
  | Errorf string error
  | ErrNotExist string
  | SyntaxError
  | UnmarshalTypeError

section \<open>The remote API (internal/docker/container.go, compose.go)\<close>

record ContainerInfo =
  ID :: string
  Names :: "string list"
  Labels :: "(string \<times> string) list"
  State :: string

record ContainerListOptions =
  All :: bool
  LabelFilter :: string

record NetworkInfo =
  ID_net :: string
  Name_net :: string

record NetworkListOptions =
  LabelFilter_net :: string

record VolumeInfo =
  Name_vol :: string
  Labels_vol :: "(string \<times> string) list"

record VolumeListOptions =
  LabelFilter_vol :: string

text \<open>
  \<^verbatim>\<open>ComposeClient\<close> (with the \<^verbatim>\<open>ContainerClient\<close> it embeds) is an interface: the
  code knows nothing of the implementation behind it.  An implementation is a record of
  functions over a state \<open>'s\<close> of its own (the remote daemon, or a test double's
  memory); every call takes the state and returns the new one.  A call that returns a
  list and an error is a sum, a call that returns an error alone is an option.  The
  context argument is the same for every call and is left out.
\<close>

record 's ComposeClient =
  ContainerList :: "ContainerListOptions \<Rightarrow> 's \<Rightarrow> (error + ContainerInfo list) \<times> 's"
  ContainerStop :: "string \<Rightarrow> int option \<Rightarrow> 's \<Rightarrow> error option \<times> 's"
  ContainerRemove :: "string \<Rightarrow> bool \<Rightarrow> 's \<Rightarrow> error option \<times> 's"
  NetworkList :: "NetworkListOptions \<Rightarrow> 's \<Rightarrow> (error + NetworkInfo list) \<times> 's"
  NetworkRemove :: "string \<Rightarrow> 's \<Rightarrow> error option \<times> 's"
  VolumeList :: "VolumeListOptions \<Rightarrow> 's \<Rightarrow> (error + VolumeInfo list) \<times> 's"
  VolumeRemove :: "string \<Rightarrow> bool \<Rightarrow> 's \<Rightarrow> error option \<times> 's"

section \<open>Compose operations (internal/docker/compose.go)\<close>

text \<open>
  \<^verbatim>\<open>for _, x := range xs { if err := body(x); err != nil { return err } }\<close>:
  the body runs on the elements in order and the first error ends the loop.
\<close>

fun forEach :: "('a \<Rightarrow> 's \<Rightarrow> error option \<times> 's) \<Rightarrow> 'a list \<Rightarrow> 's \<Rightarrow> error option \<times> 's" where
  "forEach body [] s = (None, s)"
| "forEach body (x # xs) s =
     (case body x s of
        (Some err, s') \<Rightarrow> (Some err, s')
      | (None, s') \<Rightarrow> forEach body xs s')"

definition projectLabel :: "string \<Rightarrow> string" where
  "projectLabel projectName = ''com.docker.compose.project='' @ projectName"

definition FindComposeContainers ::
    "'s ComposeClient \<Rightarrow> string \<Rightarrow> 's \<Rightarrow> (error + ContainerInfo list) \<times> 's" where
  "FindComposeContainers client projectName s =
     ContainerList client \<lparr>All = True, LabelFilter = projectLabel projectName\<rparr> s"

definition stopContainer :: "'s ComposeClient \<Rightarrow> ContainerInfo \<Rightarrow> 's \<Rightarrow> error option \<times> 's" where
  "stopContainer client container s =
     (case ContainerStop client (ID container) None s of
        (Some err, s') \<Rightarrow> (Some (Errorf (''failed to stop container '' @ ID container @ '': '') err), s')
      | (None, s') \<Rightarrow> (None, s'))"

definition removeContainer :: "'s ComposeClient \<Rightarrow> ContainerInfo \<Rightarrow> 's \<Rightarrow> error option \<times> 's" where
  "removeContainer client container s =
     (case ContainerRemove client (ID container) True s of
        (Some err, s') \<Rightarrow> (Some (Errorf (''failed to remove container '' @ ID container @ '': '') err), s')
      | (None, s') \<Rightarrow> (None, s'))"

definition removeNetwork :: "'s ComposeClient \<Rightarrow> NetworkInfo \<Rightarrow> 's \<Rightarrow> error option \<times> 's" where
  "removeNetwork client network s =
     (case NetworkRemove client (ID_net network) s of
        (Some err, s') \<Rightarrow> (Some (Errorf (''failed to remove network '' @ Name_net network @ '': '') err), s')
      | (None, s') \<Rightarrow> (None, s'))"

definition removeVolume :: "'s ComposeClient \<Rightarrow> VolumeInfo \<Rightarrow> 's \<Rightarrow> error option \<times> 's" where
  "removeVolume client volume s =
     (case VolumeRemove client (Name_vol volume) True s of
        (Some err, s') \<Rightarrow> (Some (Errorf (''failed to remove volume '' @ Name_vol volume @ '': '') err), s')
      | (None, s') \<Rightarrow> (None, s'))"

definition StopComposeProject :: "'s ComposeClient \<Rightarrow> string \<Rightarrow> 's \<Rightarrow> error option \<times> 's" where
  "StopComposeProject client projectName s =
     (case FindComposeContainers client projectName s of
        (Inl err, s1) \<Rightarrow> (Some (Errorf ''failed to find compose containers: '' err), s1)
      | (Inr containers, s1) \<Rightarrow> forEach (stopContainer client) containers s1)"

text \<open>The last part of \<^verbatim>\<open>DownComposeProject\<close>: the volumes, when requested.\<close>

definition downVolumes :: "'s ComposeClient \<Rightarrow> string \<Rightarrow> bool \<Rightarrow> 's \<Rightarrow> error option \<times> 's" where
  "downVolumes client projectName removeVolumes s =
     (if removeVolumes then
        (case VolumeList client \<lparr>LabelFilter_vol = projectLabel projectName\<rparr> s of
           (Inl err, s1) \<Rightarrow> (Some (Errorf ''failed to list volumes: '' err), s1)
         | (Inr volumes, s1) \<Rightarrow> forEach (removeVolume client) volumes s1)
      else (None, s))"

text \<open>The networks, and after them the volumes.\<close>

definition downNetworks :: "'s ComposeClient \<Rightarrow> string \<Rightarrow> bool \<Rightarrow> 's \<Rightarrow> error option \<times> 's" where
  "downNetworks client projectName removeVolumes s =
     (case NetworkList client \<lparr>LabelFilter_net = projectLabel projectName\<rparr> s of
        (Inl err, s1) \<Rightarrow> (Some (Errorf ''failed to list networks: '' err), s1)
      | (Inr networks, s1) \<Rightarrow>
          (case forEach (removeNetwork client) networks s1 of
             (Some err, s2) \<Rightarrow> (Some err, s2)
           | (None, s2) \<Rightarrow> downVolumes client projectName removeVolumes s2))"

definition DownComposeProject ::
    "'s ComposeClient \<Rightarrow> string \<Rightarrow> bool \<Rightarrow> 's \<Rightarrow> error option \<times> 's" where
  "DownComposeProject client projectName removeVolumes s =
     (case FindComposeContainers client projectName s of
        (Inl err, s1) \<Rightarrow> (Some (Errorf ''failed to find compose containers: '' err), s1)
      | (Inr containers, s1) \<Rightarrow>
          (case forEach (stopContainer client) containers s1 of
             (Some err, s2) \<Rightarrow> (Some err, s2)
           | (None, s2) \<Rightarrow>
               (case forEach (removeContainer client) containers s2 of
                  (Some err, s3) \<Rightarrow> (Some err, s3)
                | (None, s3) \<Rightarrow> downNetworks client projectName removeVolumes s3)))"

subsection \<open>A client that records its calls\<close>

text \<open>
  What the operations do to the remote API is the sequence of calls they make.  To
  state it, any client is wrapped into one that appends every call, with what the call
  returned, to a log kept beside the client's own state (the test suite's mock does the
  same).
\<close>

datatype call =
    ContainerListCall ContainerListOptions
  | ContainerStopCall string "int option"
  | ContainerRemoveCall string bool
  | NetworkListCall NetworkListOptions
  | NetworkRemoveCall string
  | VolumeListCall VolumeListOptions
  | VolumeRemoveCall string bool

datatype response =
    Done
  | Failed error
  | Containers "ContainerInfo list"
  | Networks "NetworkInfo list"
  | Volumes "VolumeInfo list"

type_synonym log = "(call \<times> response) list"

definition listed :: "('a list \<Rightarrow> response) \<Rightarrow> error + 'a list \<Rightarrow> response" where
  "listed wrap r = (case r of Inl err \<Rightarrow> Failed err | Inr xs \<Rightarrow> wrap xs)"

definition acted :: "error option \<Rightarrow> response" where
  "acted r = (case r of Some err \<Rightarrow> Failed err | None \<Rightarrow> Done)"

definition logged :: "call \<Rightarrow> ('r \<Rightarrow> response) \<Rightarrow> ('s \<Rightarrow> 'r \<times> 's) \<Rightarrow> 's \<times> log \<Rightarrow> 'r \<times> ('s \<times> log)" where
  "logged c resp f st =
     (case f (fst st) of (r, s') \<Rightarrow> (r, (s', snd st @ [(c, resp r)])))"

definition recording :: "'s ComposeClient \<Rightarrow> ('s \<times> log) ComposeClient" where
  "recording client =
     \<lparr>ContainerList = (\<lambda>opts. logged (ContainerListCall opts) (listed Containers) (ContainerList client opts)),
      ContainerStop = (\<lambda>containerID timeout. logged (ContainerStopCall containerID timeout) acted (ContainerStop client containerID timeout)),
      ContainerRemove = (\<lambda>containerID force. logged (ContainerRemoveCall containerID force) acted (ContainerRemove client containerID force)),
      NetworkList = (\<lambda>opts. logged (NetworkListCall opts) (listed Networks) (NetworkList client opts)),
      NetworkRemove = (\<lambda>networkID. logged (NetworkRemoveCall networkID) acted (NetworkRemove client networkID)),
      VolumeList = (\<lambda>opts. logged (VolumeListCall opts) (listed Volumes) (VolumeList client opts)),
      VolumeRemove = (\<lambda>volumeName force. logged (VolumeRemoveCall volumeName force) acted (VolumeRemove client volumeName force))\<rparr>"

section \<open>Project names (internal/docker/compose.go)\<close>

definition DeriveDevcontainerProjectName :: "(string \<Rightarrow> string) \<Rightarrow> string \<Rightarrow> string" where
  "DeriveDevcontainerProjectName unicodeLower configPath =
     (let configDir = Dir configPath;
          configDirName = Base configDir
      in if configDirName = ''.devcontainer'' then
           (let parentDir = Dir configDir;
                name = Base parentDir
            in ToLower unicodeLower name @ ''_devcontainer'')
         else ToLower unicodeLower configDirName)"

section \<open>The operating system\<close>

text \<open>
  The files the program reads are outside it.  \<open>Stat\<close> gives the error of
  \<^verbatim>\<open>os.Stat\<close> (the file information is never used), \<open>ReadDir\<close> and \<open>ReadFile\<close> the
  results of \<^verbatim>\<open>os.ReadDir\<close> and \<^verbatim>\<open>os.ReadFile\<close>.  The file system does not change
  while one function runs.
\<close>

record DirEntry =
  Name_entry :: string
  IsDir_entry :: bool

record OS =
  Stat :: "string \<Rightarrow> error option"
  ReadDir :: "string \<Rightarrow> error + DirEntry list"
  ReadFile :: "string \<Rightarrow> error + string"

text \<open>
  \<^verbatim>\<open>os.IsNotExist\<close>: false for \<^verbatim>\<open>nil\<close>, and it does not look into an error that
  \<^verbatim>\<open>fmt.Errorf\<close> wraps.
\<close>

definition IsNotExist :: "error option \<Rightarrow> bool" where
  "IsNotExist err = (case err of Some (ErrNotExist _) \<Rightarrow> True | _ \<Rightarrow> False)"

section \<open>Finding the configuration files (internal/devcontainer/finder.go)\<close>

text \<open>The loop over the entries of \<^verbatim>\<open>.devcontainer\<close>, with the list built so far.\<close>

fun subConfigs :: "OS \<Rightarrow> string \<Rightarrow> string list \<Rightarrow> DirEntry list \<Rightarrow> string list" where
  "subConfigs os devcontainerDir configs [] = configs"
| "subConfigs os devcontainerDir configs (entry # entries) =
     (if \<not> IsDir_entry entry then subConfigs os devcontainerDir configs entries
      else
        (let subConfig = Join [devcontainerDir, Name_entry entry, ''devcontainer.json'']
         in if Stat os subConfig = None
            then subConfigs os devcontainerDir (configs @ [subConfig]) entries
            else subConfigs os devcontainerDir configs entries))"

definition FindDevcontainerConfigs :: "OS \<Rightarrow> string \<Rightarrow> error + string list" where
  "FindDevcontainerConfigs os dir =
     (if IsNotExist (Stat os dir) then Inl (ErrorString (''directory does not exist: '' @ dir))
      else
        (let devcontainerDir = Join [dir, ''.devcontainer'']
         in if IsNotExist (Stat os devcontainerDir) then Inr []
            else
              (let mainConfig = Join [devcontainerDir, ''devcontainer.json''];
                   configs = (if Stat os mainConfig = None then [mainConfig] else [])
               in case ReadDir os devcontainerDir of
                    Inl err \<Rightarrow> Inl (Errorf ''failed to read .devcontainer directory: '' err)
                  | Inr entries \<Rightarrow> Inr (subConfigs os devcontainerDir configs entries))))"

section \<open>JSON (Go standard library, encoding/json)\<close>

text \<open>
  \<^verbatim>\<open>json.Unmarshal\<close> checks the whole input against the JSON grammar and then stores
  the values into the Go variable.  The model does the same in two steps: the text
  becomes a value of type \<open>json\<close> (or is refused: a \<^verbatim>\<open>SyntaxError\<close>), and the value is
  stored.  Bytes from 0x80 on inside a string are kept as they are (the library
  replaces those that are not UTF-8 by U+FFFD), and the library's limit of 10000 nested
  values is left out.
\<close>

datatype json =
    JNull
  | JBool bool
  | JNumber string
  | JString string
  | JArray "json list"
  | JObject "(string \<times> json) list"

definition isJSONSpace :: "char \<Rightarrow> bool" where
  "isJSONSpace c = (c = CHR '' '' \<or> c = CHR 0x09 \<or> c = CHR 0x0D \<or> c = CHR 0x0A)"

definition isDigit :: "char \<Rightarrow> bool" where
  "isDigit c = (c \<in> set ''0123456789'')"

definition hexval :: "char \<Rightarrow> nat option" where
  "hexval c = map_of (zip ''0123456789abcdefABCDEF''
                 [0, 1, 2, 3, 4, 5, 6, 7, 8, 9, 10, 11, 12, 13, 14, 15, 10, 11, 12, 13, 14, 15]) c"

text \<open>\<^verbatim>\<open>getu4\<close>: the code unit of \<^verbatim>\<open>\uXXXX\<close> at the head of the text.\<close>

definition getu4 :: "string \<Rightarrow> nat option" where
  "getu4 s =
     (case s of
        b # u # h1 # h2 # h3 # h4 # _ \<Rightarrow>
          (if b = CHR 0x5C \<and> u = CHR ''u'' then
             (case (hexval h1, hexval h2, hexval h3, hexval h4) of
                (Some a, Some b, Some c, Some d) \<Rightarrow> Some (((a * 16 + b) * 16 + c) * 16 + d)
              | _ \<Rightarrow> None)
           else None)
      | _ \<Rightarrow> None)"

text \<open>\<^verbatim>\<open>utf8.EncodeRune\<close>, for a code point that is not a surrogate.\<close>

definition EncodeRune :: "nat \<Rightarrow> string" where
  "EncodeRune r =
     (if r < 0x80 then [char_of r]
      else if r < 0x800 then [char_of (0xC0 + r div 64), char_of (0x80 + r mod 64)]
      else if r < 0x10000 then
        [char_of (0xE0 + r div 4096), char_of (0x80 + r div 64 mod 64), char_of (0x80 + r mod 64)]
      else
        [char_of (0xF0 + r div 262144), char_of (0x80 + r div 4096 mod 64),
         char_of (0x80 + r div 64 mod 64), char_of (0x80 + r mod 64)])"

definition unescape :: "char \<Rightarrow> char option" where
  "unescape c =
     map_of [(CHR 0x22, CHR 0x22), (CHR 0x5C, CHR 0x5C), (CHR ''/'', CHR ''/''),
             (CHR ''b'', CHR 0x08), (CHR ''f'', CHR 0x0C), (CHR ''n'', CHR 0x0A),
             (CHR ''r'', CHR 0x0D), (CHR ''t'', CHR 0x09)] c"

text \<open>
  The text of a string after its opening quote: the decoded string and what follows
  the closing quote.  An escape \<^verbatim>\<open>\uXXXX\<close> of a surrogate is joined with a second one
  that completes the pair; alone it becomes U+FFFD.
\<close>

function parse_string :: "string \<Rightarrow> (string \<times> string) option" where
  "parse_string [] = None"
| "parse_string (c # r) =
     (if c = CHR 0x22 then Some ([], r)
      else if c = CHR 0x5C then
        (case r of
           [] \<Rightarrow> None
         | e # r' \<Rightarrow>
             (if e = CHR ''u'' then
                (case getu4 (c # r) of
                   None \<Rightarrow> None
                 | Some rr \<Rightarrow>
                     (if 0xD800 \<le> rr \<and> rr < 0xE000 then
                        (case getu4 (drop 5 r) of
                           Some rr1 \<Rightarrow>
                             (if rr < 0xDC00 \<and> 0xDC00 \<le> rr1 \<and> rr1 < 0xE000 then
                                map_option (apfst ((@) (EncodeRune (0x10000 + (rr - 0xD800) * 1024 + (rr1 - 0xDC00)))))
                                  (parse_string (drop 11 r))
                              else map_option (apfst ((@) (EncodeRune 0xFFFD))) (parse_string (drop 5 r)))
                         | None \<Rightarrow> map_option (apfst ((@) (EncodeRune 0xFFFD))) (parse_string (drop 5 r)))
                      else map_option (apfst ((@) (EncodeRune rr))) (parse_string (drop 5 r))))
              else
                (case unescape e of
                   None \<Rightarrow> None
                 | Some d \<Rightarrow> map_option (apfst ((#) d)) (parse_string r'))))
      else if of_char c < (0x20 :: nat) then None
      else map_option (apfst ((#) c)) (parse_string r))"
  by pat_completeness auto
termination
  by (relation "measure length") auto

text \<open>
  A number: an optional minus, \<^verbatim>\<open>0\<close> or a digit from 1 to 9 and digits, an optional
  fraction, an optional exponent.  The result is the number's text and what follows.
\<close>

definition parse_digits :: "string \<Rightarrow> (string \<times> string) option" where
  "parse_digits s =
     (if takeWhile isDigit s = [] then None else Some (takeWhile isDigit s, dropWhile isDigit s))"

definition parse_int :: "string \<Rightarrow> (string \<times> string) option" where
  "parse_int s =
     (case s of
        [] \<Rightarrow> None
      | c # r \<Rightarrow>
          (if c = CHR ''0'' then Some ([c], r)
           else if isDigit c then Some (c # takeWhile isDigit r, dropWhile isDigit r)
           else None))"

definition parse_frac :: "string \<Rightarrow> (string \<times> string) option" where
  "parse_frac s =
     (case s of
        c # r \<Rightarrow>
          (if c = CHR ''.'' then map_option (apfst ((#) c)) (parse_digits r) else Some ([], s))
      | [] \<Rightarrow> Some ([], s))"

definition parse_exp :: "string \<Rightarrow> (string \<times> string) option" where
  "parse_exp s =
     (case s of
        c # r \<Rightarrow>
          (if c = CHR ''e'' \<or> c = CHR ''E'' then
             (case r of
                sg # r' \<Rightarrow>
                  (if sg = CHR ''+'' \<or> sg = CHR ''-''
                   then map_option (apfst (\<lambda>ds. c # sg # ds)) (parse_digits r')
                   else map_option (apfst ((#) c)) (parse_digits r))
              | [] \<Rightarrow> None)
           else Some ([], s))
      | [] \<Rightarrow> Some ([], s))"

definition parse_number :: "string \<Rightarrow> (string \<times> string) option" where
  "parse_number s =
     (let (sign, s1) = (case s of c # r \<Rightarrow> if c = CHR ''-'' then ([c], r) else ([], s) | [] \<Rightarrow> ([], s))
      in case parse_int s1 of
           None \<Rightarrow> None
         | Some (i, s2) \<Rightarrow>
             (case parse_frac s2 of
                None \<Rightarrow> None
              | Some (f, s3) \<Rightarrow>
                  (case parse_exp s3 of
                     None \<Rightarrow> None
                   | Some (e, s4) \<Rightarrow> Some (sign @ i @ f @ e, s4))))"

text \<open>
  A value, the elements of an array after its bracket or a comma, and the members of
  an object after its brace or a comma.  The first argument bounds the number of nested
  calls; \<^verbatim>\<open>json_parse\<close> allows twice the length of the text, and two, which is enough
  for any text (\<open>parse_value_fuel\<close> below).
\<close>

fun parse_value :: "nat \<Rightarrow> string \<Rightarrow> (json \<times> string) option"
  and parse_elems :: "nat \<Rightarrow> json list \<Rightarrow> string \<Rightarrow> (json list \<times> string) option"
  and parse_members :: "nat \<Rightarrow> (string \<times> json) list \<Rightarrow> string \<Rightarrow> ((string \<times> json) list \<times> string) option"
where
  "parse_value 0 s = None"
| "parse_value (Suc n) s =
     (case dropWhile isJSONSpace s of
        [] \<Rightarrow> None
      | c # r \<Rightarrow>
          (if c = CHR ''{'' then
             (case dropWhile isJSONSpace r of
                [] \<Rightarrow> None
              | c' # r' \<Rightarrow>
                  (if c' = CHR ''}'' then Some (JObject [], r')
                   else map_option (apfst JObject) (parse_members n [] r)))
           else if c = CHR ''['' then
             (case dropWhile isJSONSpace r of
                [] \<Rightarrow> None
              | c' # r' \<Rightarrow>
                  (if c' = CHR '']'' then Some (JArray [], r')
                   else map_option (apfst JArray) (parse_elems n [] r)))
           else if c = CHR 0x22 then map_option (apfst JString) (parse_string r)
           else if take 4 (c # r) = ''true'' then Some (JBool True, drop 4 (c # r))
           else if take 5 (c # r) = ''false'' then Some (JBool False, drop 5 (c # r))
           else if take 4 (c # r) = ''null'' then Some (JNull, drop 4 (c # r))
           else map_option (apfst JNumber) (parse_number (c # r))))"
| "parse_elems 0 acc s = None"
| "parse_elems (Suc n) acc s =
     (case parse_value n s of
        None \<Rightarrow> None
      | Some (v, r) \<Rightarrow>
          (case dropWhile isJSONSpace r of
             [] \<Rightarrow> None
           | c # r' \<Rightarrow>
               (if c = CHR '','' then parse_elems n (acc @ [v]) r'
                else if c = CHR '']'' then Some (acc @ [v], r')
                else None)))"
| "parse_members 0 acc s = None"
| "parse_members (Suc n) acc s =
     (case dropWhile isJSONSpace s of
        [] \<Rightarrow> None
      | q # r \<Rightarrow>
          (if q \<noteq> CHR 0x22 then None
           else
             (case parse_string r of
                None \<Rightarrow> None
              | Some (k, r1) \<Rightarrow>
                  (case dropWhile isJSONSpace r1 of
                     [] \<Rightarrow> None
                   | c # r2 \<Rightarrow>
                       (if c \<noteq> CHR '':'' then None
                        else
                          (case parse_value n r2 of
                             None \<Rightarrow> None
                           | Some (v, r3) \<Rightarrow>
                               (case dropWhile isJSONSpace r3 of
                                  [] \<Rightarrow> None
                                | c' # r4 \<Rightarrow>
                                    (if c' = CHR '','' then parse_members n (acc @ [(k, v)]) r4
                                     else if c' = CHR ''}'' then Some (acc @ [(k, v)], r4)
                                     else None))))))))"

definition json_parse :: "string \<Rightarrow> json option" where
  "json_parse s =
     (case parse_value (2 * length s + 2) s of
        None \<Rightarrow> None
      | Some (v, r) \<Rightarrow> if dropWhile isJSONSpace r = [] then Some v else None)"

text \<open>
  Storing a value.  Into a \<^verbatim>\<open>string\<close>: a JSON string is stored, \<^verbatim>\<open>null\<close> leaves the
  variable as it is and is no error, anything else is an
  \<^verbatim>\<open>UnmarshalTypeError\<close>.  Into a \<^verbatim>\<open>[]string\<close>: an array is stored element by
  element (into fresh, empty strings), \<^verbatim>\<open>null\<close> makes the slice \<^verbatim>\<open>nil\<close>.
\<close>

definition store_string :: "string \<Rightarrow> json \<Rightarrow> error + string" where
  "store_string cur v =
     (case v of JString s \<Rightarrow> Inr s | JNull \<Rightarrow> Inr cur | _ \<Rightarrow> Inl UnmarshalTypeError)"

fun store_strings :: "json list \<Rightarrow> error + string list" where
  "store_strings [] = Inr []"
| "store_strings (v # vs) =
     (case store_string [] v of
        Inl err \<Rightarrow> Inl err
      | Inr s \<Rightarrow> (case store_strings vs of Inl err \<Rightarrow> Inl err | Inr ss \<Rightarrow> Inr (s # ss)))"

definition store_string_slice :: "json \<Rightarrow> error + string list" where
  "store_string_slice v =
     (case v of JArray vs \<Rightarrow> store_strings vs | JNull \<Rightarrow> Inr [] | _ \<Rightarrow> Inl UnmarshalTypeError)"

section \<open>Parsing a configuration (internal/devcontainer/parser.go)\<close>

record Config =
  Image :: string
  DockerComposeFile :: "string list"
  Service :: string
  ConfigPath :: string

text \<open>
  \<^verbatim>\<open>rawConfig\<close>.  A \<^verbatim>\<open>json.RawMessage\<close> holds the text of the member's value, and
  is empty when the object has no such member; the model keeps the value that text
  denotes, which is what reading the text again gives.
\<close>

record rawConfig =
  Image_raw :: string
  DockerComposeFile_raw :: "json option"
  Service_raw :: string

text \<open>
  The member names of \<^verbatim>\<open>rawConfig\<close>.  The library takes a key that is a field's name,
  and otherwise the first field whose name is the key up to the case of letters (for
  ASCII letters, as here; its folding of two more Unicode letters is left out).
\<close>

datatype field = ImageField | DockerComposeFileField | ServiceField

definition fieldOf :: "string \<Rightarrow> field option" where
  "fieldOf key =
     (if key = ''image'' then Some ImageField
      else if key = ''dockerComposeFile'' then Some DockerComposeFileField
      else if key = ''service'' then Some ServiceField
      else if map asciiLower key = ''image'' then Some ImageField
      else if map asciiLower key = ''dockercomposefile'' then Some DockerComposeFileField
      else if map asciiLower key = ''service'' then Some ServiceField
      else None)"

fun store_members :: "rawConfig \<Rightarrow> (string \<times> json) list \<Rightarrow> error + rawConfig" where
  "store_members raw [] = Inr raw"
| "store_members raw ((key, v) # kvs) =
     (case fieldOf key of
        None \<Rightarrow> store_members raw kvs
      | Some ImageField \<Rightarrow>
          (case store_string (Image_raw raw) v of
             Inl err \<Rightarrow> Inl err
           | Inr s \<Rightarrow> store_members (raw\<lparr>Image_raw := s\<rparr>) kvs)
      | Some DockerComposeFileField \<Rightarrow> store_members (raw\<lparr>DockerComposeFile_raw := Some v\<rparr>) kvs
      | Some ServiceField \<Rightarrow>
          (case store_string (Service_raw raw) v of
             Inl err \<Rightarrow> Inl err
           | Inr s \<Rightarrow> store_members (raw\<lparr>Service_raw := s\<rparr>) kvs))"

text \<open>\<^verbatim>\<open>json.Unmarshal(data, &raw)\<close> for a fresh \<^verbatim>\<open>rawConfig\<close>.\<close>

definition Unmarshal_rawConfig :: "string \<Rightarrow> error + rawConfig" where
  "Unmarshal_rawConfig data =
     (case json_parse data of
        None \<Rightarrow> Inl SyntaxError
      | Some (JObject kvs) \<Rightarrow>
          store_members \<lparr>Image_raw = [], DockerComposeFile_raw = None, Service_raw = []\<rparr> kvs
      | Some JNull \<Rightarrow> Inr \<lparr>Image_raw = [], DockerComposeFile_raw = None, Service_raw = []\<rparr>
      | Some _ \<Rightarrow> Inl UnmarshalTypeError)"

definition parseDockerComposeFile :: "json \<Rightarrow> error + string list" where
  "parseDockerComposeFile data =
     (case store_string [] data of
        Inr single \<Rightarrow> Inr [single]
      | Inl _ \<Rightarrow>
          (case store_string_slice data of
             Inr multiple \<Rightarrow> Inr multiple
           | Inl _ \<Rightarrow> Inl (ErrorString ''dockerComposeFile must be a string or array of strings'')))"

text \<open>
  The three replacements of \<^verbatim>\<open>stripJSONC\<close>, each the library's
  \<^verbatim>\<open>ReplaceAllString\<close> for one regular expression: the matches are found from left
  to right, each at the leftmost place where one starts, and do not overlap.

  \<^verbatim>\<open>//[^\n]*\<close> replaced by nothing.
\<close>

function stripLineComments :: "string \<Rightarrow> string" where
  "stripLineComments [] = []"
| "stripLineComments [c] = [c]"
| "stripLineComments (c # d # r) =
     (if c = CHR ''/'' \<and> d = CHR ''/'' then stripLineComments (dropWhile (\<lambda>x. x \<noteq> CHR 0x0A) r)
      else c # stripLineComments (d # r))"
  by pat_completeness auto
termination
  by (relation "measure length") (auto simp: less_Suc_eq_le intro: le_trans [OF length_dropWhile_le])

text \<open>
  \<^verbatim>\<open>/\*[\s\S]*?\*/\<close> replaced by nothing: from \<^verbatim>\<open>/*\<close> to the first \<^verbatim>\<open>*/\<close> after
  it; a \<^verbatim>\<open>/*\<close> with no \<^verbatim>\<open>*/\<close> after it stays.
\<close>

fun afterClose :: "string \<Rightarrow> string option" where
  "afterClose [] = None"
| "afterClose [c] = None"
| "afterClose (c # d # r) = (if c = CHR ''*'' \<and> d = CHR ''/'' then Some r else afterClose (d # r))"

function stripBlockComments :: "string \<Rightarrow> string" where
  "stripBlockComments [] = []"
| "stripBlockComments [c] = [c]"
| "stripBlockComments (c # d # r) =
     (if c = CHR ''/'' \<and> d = CHR ''*'' then
        (case afterClose r of
           Some r' \<Rightarrow> stripBlockComments r'
         | None \<Rightarrow> c # stripBlockComments (d # r))
      else c # stripBlockComments (d # r))"
  by pat_completeness auto
termination
proof (relation "measure length")
  fix c d :: char and r r' :: string
  assume "afterClose r = Some r'"
  then have "length r' < length r"
    by (induction r rule: afterClose.induct) (auto split: if_splits)
  then show "(r', c # d # r) \<in> measure length" by simp
qed auto

text \<open>
  \<^verbatim>\<open>,(\s*[}\]])\<close> replaced by its group: a comma followed by white space
  (\<^verbatim>\<open>[\t\n\f\r ]\<close>) and a closing brace or bracket loses the comma.
\<close>

definition isRegexpSpace :: "char \<Rightarrow> bool" where
  "isRegexpSpace c = (c = CHR 0x09 \<or> c = CHR 0x0A \<or> c = CHR 0x0C \<or> c = CHR 0x0D \<or> c = CHR '' '')"

function stripTrailingCommas :: "string \<Rightarrow> string" where
  "stripTrailingCommas [] = []"
| "stripTrailingCommas (c # r) =
     (if c = CHR '','' then
        (case dropWhile isRegexpSpace r of
           [] \<Rightarrow> c # stripTrailingCommas r
         | x # r' \<Rightarrow>
             (if x = CHR ''}'' \<or> x = CHR '']''
              then takeWhile isRegexpSpace r @ x # stripTrailingCommas r'
              else c # stripTrailingCommas r))
      else c # stripTrailingCommas r)"
  by pat_completeness auto
termination
proof (relation "measure length")
  fix c :: char and r r' :: string and x :: char
  assume "dropWhile isRegexpSpace r = x # r'"
  then have "length (x # r') \<le> length r"
    by (metis length_dropWhile_le)
  then show "(r', c # r) \<in> measure length" by simp
qed auto

text \<open>
  \<^verbatim>\<open>strings.TrimSpace\<close>, for the white space of ASCII (the library also trims the
  Unicode spaces, which take more than one byte).
\<close>

definition isSpaceASCII :: "char \<Rightarrow> bool" where
  "isSpaceASCII c =
     (c = CHR 0x09 \<or> c = CHR 0x0A \<or> c = CHR 0x0B \<or> c = CHR 0x0C \<or> c = CHR 0x0D \<or> c = CHR '' '')"

definition TrimSpace :: "string \<Rightarrow> string" where
  "TrimSpace s = rev (dropWhile isSpaceASCII (rev (dropWhile isSpaceASCII s)))"

definition stripJSONC :: "string \<Rightarrow> string" where
  "stripJSONC content = TrimSpace (stripTrailingCommas (stripBlockComments (stripLineComments content)))"

definition ParseConfig :: "OS \<Rightarrow> string \<Rightarrow> error + Config" where
  "ParseConfig os path =
     (case ReadFile os path of
        Inl err \<Rightarrow> Inl (Errorf ''failed to read config file: '' err)
      | Inr data \<Rightarrow>
          (let cleaned = stripJSONC data
           in case Unmarshal_rawConfig cleaned of
                Inl err \<Rightarrow> Inl (Errorf ''failed to parse config: '' err)
              | Inr raw \<Rightarrow>
                  (let config = \<lparr>Image = Image_raw raw, DockerComposeFile = [],
                                 Service = Service_raw raw, ConfigPath = path\<rparr>
                   in case DockerComposeFile_raw raw of
                        None \<Rightarrow> Inr config
                      | Some data \<Rightarrow>
                          (case parseDockerComposeFile data of
                             Inl err \<Rightarrow> Inl err
                           | Inr files \<Rightarrow> Inr (config\<lparr>DockerComposeFile := files\<rparr>)))))"

definition IsImageBased :: "Config \<Rightarrow> bool" where
  "IsImageBased c = (Image c \<noteq> [] \<and> length (DockerComposeFile c) = 0)"

definition IsComposeBased :: "Config \<Rightarrow> bool" where
  "IsComposeBased c = (length (DockerComposeFile c) > 0)"

definition GetComposeFiles :: "Config \<Rightarrow> string list" where
  "GetComposeFiles c =
     (if length (DockerComposeFile c) = 0 then []
      else
        (let configDir = Dir (ConfigPath c)
         in map (\<lambda>f. if IsAbs f then f else Clean (Join [configDir, f])) (DockerComposeFile c)))"

section \<open>The command (cmd/root.go)\<close>

text \<open>
  The end of \<^verbatim>\<open>runStop\<close>: the selected configuration goes to \<^verbatim>\<open>handleCompose\<close> when
  it is compose-based and to \<^verbatim>\<open>handleImage\<close> otherwise.
\<close>

datatype handler = HandleCompose | HandleImage

definition runStop_handler :: "Config \<Rightarrow> handler" where
  "runStop_handler selectedConfig =
     (if IsComposeBased selectedConfig then HandleCompose else HandleImage)"

section \<open>Project names of compose files\<close>

text \<open>
  Modelled from the spec: \<^verbatim>\<open>DeriveProjectNameFromComposeFile\<close>,
  \<^verbatim>\<open>DeriveProjectNameFromComposeFiles\<close> and \<^verbatim>\<open>DeriveProjectNameFromConfig\<close> are
  called by \<^verbatim>\<open>cmd/root.go\<close> and \<^verbatim>\<open>internal/ui\<close> and exercised by the tests of
  \<^verbatim>\<open>internal/docker\<close>, but their code is not among the sources.  They follow section
  4.3 of the specification (\<^verbatim>\<open>deriveFromComposeFilePath\<close>, \<^verbatim>\<open>deriveForDefinition\<close>):
  the name comes from the directory of the compose file, by three cases; of a sequence
  of compose files only the first counts, and an empty sequence gives the empty name; a
  definition without compose files is named after its own path.  The paths handed to
  the namer are the resolved ones (section 4.2: the resolution ``feeds directly into
  Project Namer''), as the tests of \<^verbatim>\<open>DeriveProjectNameFromConfig\<close> require.
\<close>

definition DeriveProjectNameFromComposeFile :: "(string \<Rightarrow> string) \<Rightarrow> string \<Rightarrow> string" where
  "DeriveProjectNameFromComposeFile unicodeLower composeFilePath =
     (let dir = Dir composeFilePath
      in if Base dir = ''.devcontainer'' then
           ToLower unicodeLower (Base (Dir dir)) @ ''_devcontainer''
         else if Base (Dir dir) = ''.devcontainer'' then ToLower unicodeLower (Base dir)
         else ToLower unicodeLower (Base dir))"

definition DeriveProjectNameFromComposeFiles :: "(string \<Rightarrow> string) \<Rightarrow> string list \<Rightarrow> string" where
  "DeriveProjectNameFromComposeFiles unicodeLower composeFiles =
     (case composeFiles of
        [] \<Rightarrow> []
      | first # _ \<Rightarrow> DeriveProjectNameFromComposeFile unicodeLower first)"

definition DeriveProjectNameFromConfig :: "(string \<Rightarrow> string) \<Rightarrow> Config \<Rightarrow> string" where
  "DeriveProjectNameFromConfig unicodeLower cfg =
     (if DockerComposeFile cfg \<noteq> []
      then DeriveProjectNameFromComposeFiles unicodeLower (GetComposeFiles cfg)
      else DeriveDevcontainerProjectName unicodeLower (ConfigPath cfg))"

section \<open>Describing paths\<close>

text \<open>
  An ordinary element of a path: not empty, without a separator, and neither \<^verbatim>\<open>.\<close>
  nor \<^verbatim>\<open>..\<close>; and the absolute path made of such elements.
\<close>

definition elem_ok :: "string \<Rightarrow> bool" where
  "elem_ok x = (x \<noteq> [] \<and> CHR ''/'' \<notin> set x \<and> x \<noteq> ''.'' \<and> x \<noteq> ''..'')"

fun abs_path :: "string list \<Rightarrow> string" where
  "abs_path [] = []"
| "abs_path (x # xs) = ''/'' @ x @ abs_path xs"

section \<open>Describing what a run did\<close>

text \<open>
  The calls the operations make, by the resource they are made for, and the messages
  the operations put before an error of the remote API.
\<close>

definition ctrListCall :: "string \<Rightarrow> call" where
  "ctrListCall p = ContainerListCall \<lparr>All = True, LabelFilter = projectLabel p\<rparr>"

definition netListCall :: "string \<Rightarrow> call" where
  "netListCall p = NetworkListCall \<lparr>LabelFilter_net = projectLabel p\<rparr>"

definition volListCall :: "string \<Rightarrow> call" where
  "volListCall p = VolumeListCall \<lparr>LabelFilter_vol = projectLabel p\<rparr>"

definition stopCall :: "ContainerInfo \<Rightarrow> call" where
  "stopCall c = ContainerStopCall (ID c) None"

definition rmCall :: "ContainerInfo \<Rightarrow> call" where
  "rmCall c = ContainerRemoveCall (ID c) True"

definition rmNetCall :: "NetworkInfo \<Rightarrow> call" where
  "rmNetCall n = NetworkRemoveCall (ID_net n)"

definition rmVolCall :: "VolumeInfo \<Rightarrow> call" where
  "rmVolCall v = VolumeRemoveCall (Name_vol v) True"

definition stopMsg :: "ContainerInfo \<Rightarrow> string" where
  "stopMsg c = ''failed to stop container '' @ ID c @ '': ''"

definition rmMsg :: "ContainerInfo \<Rightarrow> string" where
  "rmMsg c = ''failed to remove container '' @ ID c @ '': ''"

definition rmNetMsg :: "NetworkInfo \<Rightarrow> string" where
  "rmNetMsg n = ''failed to remove network '' @ Name_net n @ '': ''"

definition rmVolMsg :: "VolumeInfo \<Rightarrow> string" where
  "rmVolMsg v = ''failed to remove volume '' @ Name_vol v @ '': ''"

text \<open>
  The calls of a complete \<^verbatim>\<open>DownComposeProject\<close>, for the containers, networks and
  volumes the three list calls returned.
\<close>

definition down_calls :: "string \<Rightarrow> bool \<Rightarrow> ContainerInfo list \<Rightarrow> NetworkInfo list \<Rightarrow> VolumeInfo list \<Rightarrow> call list" where
  "down_calls p rv cs ns vs =
     ctrListCall p # map stopCall cs @ map rmCall cs @ netListCall p # map rmNetCall ns
       @ (if rv then volListCall p # map rmVolCall vs else [])"

definition isVolumeCall :: "call \<Rightarrow> bool" where
  "isVolumeCall c = (case c of VolumeListCall _ \<Rightarrow> True | VolumeRemoveCall _ _ \<Rightarrow> True | _ \<Rightarrow> False)"

definition isNetworkCall :: "call \<Rightarrow> bool" where
  "isNetworkCall c = (case c of NetworkListCall _ \<Rightarrow> True | NetworkRemoveCall _ \<Rightarrow> True | _ \<Rightarrow> False)"

definition isFailed :: "response \<Rightarrow> bool" where
  "isFailed r = (case r of Failed _ \<Rightarrow> True | _ \<Rightarrow> False)"

text \<open>
  A failed stop or remove call for the container \<open>cid\<close>, as an entry of the log.
\<close>

definition container_failure :: "string \<Rightarrow> error \<Rightarrow> call \<times> response \<Rightarrow> bool" where
  "container_failure cid e ent =
     ((\<exists>t. ent = (ContainerStopCall cid t, Failed e)) \<or> (\<exists>f. ent = (ContainerRemoveCall cid f, Failed e)))"

text \<open>
  The shape of a log.  \<open>dones g xs\<close> is a loop that went through; \<open>loop_run\<close> is any
  run of a loop: through, or ended by the first failure.  \<open>vol_run\<close>, \<open>net_run\<close>,
  \<open>down_run\<close> and \<open>stop_run\<close> put the runs of the phases together as the code does;
  \<open>fails_last\<close> says that no entry but the last is a failure.
\<close>

definition dones :: "('a \<Rightarrow> call) \<Rightarrow> 'a list \<Rightarrow> log" where
  "dones g xs = map (\<lambda>x. (g x, Done)) xs"

definition loop_run :: "('a \<Rightarrow> call) \<Rightarrow> ('a \<Rightarrow> string) \<Rightarrow> 'a list \<Rightarrow> error option \<Rightarrow> log \<Rightarrow> bool" where
  "loop_run g m xs res ext =
     ((res = None \<and> ext = dones g xs) \<or>
      (\<exists>j e. j < length xs \<and> res = Some (Errorf (m (xs ! j)) e)
          \<and> ext = dones g (take j xs) @ [(g (xs ! j), Failed e)]))"

definition vol_run :: "string \<Rightarrow> bool \<Rightarrow> error option \<Rightarrow> log \<Rightarrow> bool" where
  "vol_run p rv res ext =
     ((\<not> rv \<and> res = None \<and> ext = []) \<or>
      (rv \<and> (\<exists>e. res = Some (Errorf ''failed to list volumes: '' e) \<and> ext = [(volListCall p, Failed e)])) \<or>
      (rv \<and> (\<exists>vs ext1. ext = (volListCall p, Volumes vs) # ext1 \<and> loop_run rmVolCall rmVolMsg vs res ext1)))"

definition net_run :: "string \<Rightarrow> bool \<Rightarrow> error option \<Rightarrow> log \<Rightarrow> bool" where
  "net_run p rv res ext =
     ((\<exists>e. res = Some (Errorf ''failed to list networks: '' e) \<and> ext = [(netListCall p, Failed e)]) \<or>
      (\<exists>ns ext1. ext = (netListCall p, Networks ns) # ext1 \<and> res \<noteq> None
          \<and> loop_run rmNetCall rmNetMsg ns res ext1) \<or>
      (\<exists>ns ext2. ext = (netListCall p, Networks ns) # dones rmNetCall ns @ ext2 \<and> vol_run p rv res ext2))"

definition down_run :: "string \<Rightarrow> bool \<Rightarrow> error option \<Rightarrow> log \<Rightarrow> bool" where
  "down_run p rv res lg =
     ((\<exists>e. res = Some (Errorf ''failed to find compose containers: '' e) \<and> lg = [(ctrListCall p, Failed e)]) \<or>
      (\<exists>cs ext1. lg = (ctrListCall p, Containers cs) # ext1 \<and> res \<noteq> None
          \<and> loop_run stopCall stopMsg cs res ext1) \<or>
      (\<exists>cs ext1. lg = (ctrListCall p, Containers cs) # dones stopCall cs @ ext1 \<and> res \<noteq> None
          \<and> loop_run rmCall rmMsg cs res ext1) \<or>
      (\<exists>cs ext2. lg = (ctrListCall p, Containers cs) # dones stopCall cs @ dones rmCall cs @ ext2
          \<and> net_run p rv res ext2))"

definition stop_run :: "string \<Rightarrow> error option \<Rightarrow> log \<Rightarrow> bool" where
  "stop_run p res lg =
     ((\<exists>e. res = Some (Errorf ''failed to find compose containers: '' e) \<and> lg = [(ctrListCall p, Failed e)]) \<or>
      (\<exists>cs ext1. lg = (ctrListCall p, Containers cs) # ext1 \<and> loop_run stopCall stopMsg cs res ext1))"

definition fails_last :: "log \<Rightarrow> bool" where
  "fails_last lg = (\<forall>e \<in> set (butlast lg). \<not> isFailed (snd e))"

section \<open>Describing the reading of a value\<close>

text \<open>
  A value that \<^verbatim>\<open>parse_value\<close> reads without a nested call: a string, a literal or a
  number, from the first character that is not white space.
\<close>

definition atom :: "string \<Rightarrow> (json \<times> string) option" where
  "atom t =
     (case t of
        [] \<Rightarrow> None
      | c # r \<Rightarrow>
           if c = CHR 0x22 then map_option (apfst JString) (parse_string r)
           else if take 4 (c # r) = ''true'' then Some (JBool True, drop 4 (c # r))
           else if take 5 (c # r) = ''false'' then Some (JBool False, drop 5 (c # r))
           else if take 4 (c # r) = ''null'' then Some (JNull, drop 4 (c # r))
           else map_option (apfst JNumber) (parse_number (c # r)))"

text \<open>
  \<open>enough s r k\<close>: \<open>k\<close> is at least twice the number of characters between the start of
  \<open>s\<close> and its rest \<open>r\<close>.
\<close>

definition enough :: "string \<Rightarrow> string \<Rightarrow> nat \<Rightarrow> bool" where
  "enough s r k = (2 * (length s - length r) \<le> k)"


section \<open>Test doubles\<close>

text \<open>
  A client without a state of its own: the list calls return the given results, and
  stopping a container fails for the identifiers in \<open>failing\<close>.
\<close>

definition stub_client ::
    "ContainerInfo list \<Rightarrow> error + NetworkInfo list \<Rightarrow> VolumeInfo list \<Rightarrow> string list
      \<Rightarrow> unit ComposeClient" where
  "stub_client cs nets vs failing =
     \<lparr>ContainerList = (\<lambda>opts s. (Inr cs, s)),
      ContainerStop = (\<lambda>containerID timeout s.
         (if containerID \<in> set failing then Some (ErrorString ''timeout'') else None, s)),
      ContainerRemove = (\<lambda>containerID force s. (None, s)),
      NetworkList = (\<lambda>opts s. (nets, s)),
      NetworkRemove = (\<lambda>networkID s. (None, s)),
      VolumeList = (\<lambda>opts s. (Inr vs, s)),
      VolumeRemove = (\<lambda>volumeName force s. (None, s))\<rparr>"

definition container :: "string \<Rightarrow> ContainerInfo" where
  "container cid = \<lparr>ID = cid, Names = [], Labels = [], State = ''running''\<rparr>"


text \<open>A file system where every file reads as \<open>content\<close>.\<close>

definition file_os :: "string \<Rightarrow> OS" where
  "file_os content = \<lparr>Stat = (\<lambda>p. None), ReadDir = (\<lambda>p. Inr []), ReadFile = (\<lambda>p. Inr content)\<rparr>"



section \<open>Paths made of ordinary elements\<close>

lemma abs_path_append: "abs_path (xs @ ys) = abs_path xs @ abs_path ys"
  by (induction xs) simp_all

lemma abs_path_head: "abs_path xs = [] \<or> hd (abs_path xs) = CHR ''/''"
  by (cases xs) simp_all

lemma takeWhile_elem:
  assumes "CHR ''/'' \<notin> set x" "rest = [] \<or> hd rest = CHR ''/''"
  shows "takeWhile (\<lambda>c. \<not> IsPathSeparator c) (x @ rest) = x"
    and "dropWhile (\<lambda>c. \<not> IsPathSeparator c) (x @ rest) = rest"
  using assms
  by (cases rest; auto simp: IsPathSeparator_def takeWhile_append dropWhile_append
        takeWhile_eq_all_conv dropWhile_eq_Nil_conv)+

lemma clean_loop_elem:
  assumes "elem_ok x" "rest = [] \<or> hd rest = CHR ''/''"
  shows "clean_loop True (x @ rest) out dd
         = clean_loop True rest ((if length out \<noteq> 1 then out @ ''/'' else out) @ x) dd"
proof -
  from assms(1) obtain c x' where x: "x = c # x'" by (cases x) (auto simp: elem_ok_def)
  from assms(1) x have c: "c \<noteq> CHR ''/''" and x': "CHR ''/'' \<notin> set x'"
    by (auto simp: elem_ok_def)
  have sep: "IsPathSeparator c = False"
    using c by (simp add: IsPathSeparator_def)
  have dot: "(c = CHR ''.'' \<and> (x' @ rest = [] \<or> IsPathSeparator (hd (x' @ rest)))) = False"
    using assms x x' by (cases x') (auto simp: elem_ok_def IsPathSeparator_def)
  have dotdot: "(c = CHR ''.'' \<and> x' @ rest \<noteq> [] \<and> hd (x' @ rest) = CHR ''.''
              \<and> (tl (x' @ rest) = [] \<or> IsPathSeparator (hd (tl (x' @ rest))))) = False"
  proof (cases x')
    case Nil
    with assms(2) show ?thesis by (auto simp: IsPathSeparator_def)
  next
    case (Cons d x'')
    with assms x x' show ?thesis
      by (cases x'') (auto simp: elem_ok_def IsPathSeparator_def)
  qed
  have l: "(True \<and> length out \<noteq> 1 \<or> \<not> True \<and> length out \<noteq> 0) = (length out \<noteq> 1)"
    by simp
  note tw = takeWhile_elem [OF x' assms(2)]
  show ?thesis
    unfolding x append_Cons clean_loop.simps(2) sep dot dotdot if_False tw l
    by simp
qed

lemma clean_loop_abs:
  assumes "list_all elem_ok comps" "length out > 1" "trail = [] \<or> trail = ''/''"
  shows "clean_loop True (abs_path comps @ trail) out 1 = out @ abs_path comps"
  using assms
proof (induction comps arbitrary: out)
  case Nil
  then show ?case by (auto simp: IsPathSeparator_def)
next
  case (Cons x xs)
  have r: "abs_path xs @ trail = [] \<or> hd (abs_path xs @ trail) = CHR ''/''"
    using abs_path_head [of xs] Cons.prems(3) by (cases "abs_path xs") auto
  have "clean_loop True (abs_path (x # xs) @ trail) out 1
        = clean_loop True (x @ (abs_path xs @ trail)) out 1"
    by (simp add: IsPathSeparator_def)
  also have "\<dots> = clean_loop True (abs_path xs @ trail) ((out @ ''/'') @ x) 1"
    using clean_loop_elem [of x "abs_path xs @ trail" out 1] Cons.prems r by simp
  also have "\<dots> = ((out @ ''/'') @ x) @ abs_path xs"
    using Cons.prems by (intro Cons.IH) auto
  finally show ?case by simp
qed

lemma Clean_abs_path:
  assumes "list_all elem_ok comps" "comps \<noteq> []" "trail = [] \<or> trail = ''/''"
  shows "Clean (abs_path comps @ trail) = abs_path comps"
proof -
  from assms(2) obtain x xs where c: "comps = x # xs" by (cases comps) auto
  have r: "abs_path xs @ trail = [] \<or> hd (abs_path xs @ trail) = CHR ''/''"
    using abs_path_head [of xs] assms(3) by (cases "abs_path xs") auto
  from assms(1) c have x: "elem_ok x" "list_all elem_ok xs" by simp_all
  then have "x \<noteq> []" by (simp add: elem_ok_def)
  have "clean_loop True (x @ abs_path xs @ trail) ''/'' 1
        = clean_loop True (abs_path xs @ trail) (''/'' @ x) 1"
    using clean_loop_elem [OF x(1) r, of "''/''" 1] by simp
  also have "\<dots> = (''/'' @ x) @ abs_path xs"
    using x \<open>x \<noteq> []\<close> assms(3) by (intro clean_loop_abs) (simp_all add: Suc_lessI)
  finally show ?thesis
    unfolding c by (simp add: Clean_def IsPathSeparator_def)
qed

lemma last_slash_prefix:
  assumes "CHR ''/'' \<notin> set f"
  shows "rev (dropWhile (\<lambda>c. \<not> IsPathSeparator c) (rev (p @ ''/'' @ f))) = p @ ''/''"
  using assms by (simp add: dropWhile_append3 IsPathSeparator_def dropWhile_append dropWhile_eq_Nil_conv)

lemma Dir_slash:
  assumes "elem_ok f"
  shows "Dir (p @ ''/'' @ f) = Clean (p @ ''/'')"
proof -
  from assms have "CHR ''/'' \<notin> set f" by (simp add: elem_ok_def)
  from last_slash_prefix [OF this] show ?thesis
    unfolding Dir_def by (simp only:)
qed

lemma Dir_abs_path:
  assumes "list_all elem_ok comps" "comps \<noteq> []" "elem_ok f"
  shows "Dir (abs_path comps @ ''/'' @ f) = abs_path comps"
  using Clean_abs_path [OF assms(1,2), of "''/''"] Dir_slash [OF assms(3), of "abs_path comps"]
  by simp

lemma Dir_top:
  assumes "elem_ok f"
  shows "Dir (''/'' @ f) = ''/''"
  using Dir_slash [OF assms, of "[]"]
  by (simp add: Clean_def IsPathSeparator_def)

lemma Base_elem:
  assumes "elem_ok f"
  shows "Base (p @ ''/'' @ f) = f"
proof -
  from assms have f: "f \<noteq> []" "CHR ''/'' \<notin> set f" by (simp_all add: elem_ok_def)
  then have l: "last f \<noteq> CHR ''/''" by (metis last_in_set)
  from f have "rev f \<noteq> []" by simp
  then obtain c r where r: "rev f = c # r" by (cases "rev f") auto
  with l f have c: "c \<noteq> CHR ''/''" by (metis last_rev list.sel(1) rev_rev_ident hd_rev)
  have s: "rev (dropWhile IsPathSeparator (rev (p @ ''/'' @ f))) = p @ ''/'' @ f"
    using r c by (simp add: IsPathSeparator_def)
  have "takeWhile (\<lambda>c. \<not> IsPathSeparator c) (rev f @ ''/'' @ rev p) = rev f"
    using f(2) by (simp add: takeWhile_append IsPathSeparator_def takeWhile_eq_all_conv)
  with s f show ?thesis by (simp add: Base_def Let_def)
qed

lemma Base_abs_path:
  assumes "list_all elem_ok comps" "comps \<noteq> []"
  shows "Base (abs_path comps) = last comps"
proof -
  from assms(2) have c: "comps = butlast comps @ [last comps]" by simp
  from assms have "elem_ok (last comps)" by (simp add: list_all_iff)
  from Base_elem [OF this, of "abs_path (butlast comps)"] show ?thesis
    by (subst c) (simp add: abs_path_append)
qed

lemma flat_layout:
  assumes "list_all elem_ok root" "root \<noteq> []" "elem_ok file"
  shows "Dir (abs_path root @ ''/.devcontainer/'' @ file) = abs_path root @ ''/.devcontainer''"
    and "Base (abs_path root @ ''/.devcontainer'') = ''.devcontainer''"
    and "Dir (abs_path root @ ''/.devcontainer'') = abs_path root"
    and "Base (abs_path root) = last root"
proof -
  have dc: "elem_ok ''.devcontainer''" by (simp add: elem_ok_def)
  from assms(1) dc have r1: "list_all elem_ok (root @ [''.devcontainer''])" by simp
  show "Dir (abs_path root @ ''/.devcontainer/'' @ file) = abs_path root @ ''/.devcontainer''"
    using Dir_abs_path [OF r1 _ assms(3)] by (simp add: abs_path_append)
  show "Base (abs_path root @ ''/.devcontainer'') = ''.devcontainer''"
    using Base_elem [OF dc, of "abs_path root"] by simp
  show "Dir (abs_path root @ ''/.devcontainer'') = abs_path root"
    using Dir_abs_path [OF assms(1,2) dc] by simp
  show "Base (abs_path root) = last root"
    by (rule Base_abs_path [OF assms(1,2)])
qed

lemma multi_layout:
  assumes "list_all elem_ok root" "elem_ok sub" "elem_ok file"
  shows "Dir (abs_path root @ ''/.devcontainer/'' @ sub @ ''/'' @ file)
           = abs_path root @ ''/.devcontainer/'' @ sub"
    and "Base (abs_path root @ ''/.devcontainer/'' @ sub) = sub"
    and "Dir (abs_path root @ ''/.devcontainer/'' @ sub) = abs_path root @ ''/.devcontainer''"
proof -
  have dc: "elem_ok ''.devcontainer''" by (simp add: elem_ok_def)
  from assms(1) dc have r1: "list_all elem_ok (root @ [''.devcontainer''])" by simp
  with assms(2) have r2: "list_all elem_ok (root @ [''.devcontainer'', sub])" by simp
  show "Dir (abs_path root @ ''/.devcontainer/'' @ sub @ ''/'' @ file)
           = abs_path root @ ''/.devcontainer/'' @ sub"
    using Dir_abs_path [OF r2 _ assms(3)] by (simp add: abs_path_append)
  show "Base (abs_path root @ ''/.devcontainer/'' @ sub) = sub"
    using Base_elem [OF assms(2), of "abs_path root @ ''/.devcontainer''"] by simp
  show "Dir (abs_path root @ ''/.devcontainer/'' @ sub) = abs_path root @ ''/.devcontainer''"
    using Dir_abs_path [OF r1 _ assms(2)] by (simp add: abs_path_append)
qed

section \<open>Names derived from paths\<close>

lemma asciiLower_not_upper: "\<not> isUpperASCII (asciiLower c)"
  by (auto simp: asciiLower_def isUpperASCII_def)

lemma ToLower_no_upper:
  assumes "\<forall>s. \<not> list_ex isUpperASCII (unicodeLower s)"
  shows "\<not> list_ex isUpperASCII (ToLower unicodeLower s)"
  using assms by (simp add: ToLower_def list_ex_iff asciiLower_not_upper)

lemma no_upper_suffix: "\<not> list_ex isUpperASCII ''_devcontainer''"
  by (simp add: isUpperASCII_def)

text \<open>
  Claim C1.  For every path, \<^verbatim>\<open>DeriveDevcontainerProjectName\<close> returns the lower-cased
  base name of the path's parent directory, unless that base name is
  \<^verbatim>\<open>.devcontainer\<close>: then it returns the lower-cased base name of the parent's
  parent, followed by \<^verbatim>\<open>_devcontainer\<close>.  The two paths of the specification give
  \<^verbatim>\<open>myproj_devcontainer\<close> and \<^verbatim>\<open>app1\<close>; in general, under a root made of ordinary
  elements, \<^verbatim>\<open><root>/.devcontainer/<file>\<close> is named after the last element of the
  root and \<^verbatim>\<open><root>/.devcontainer/<sub>/<file>\<close> after \<^verbatim>\<open><sub>\<close>.  The result holds
  no upper-case letter \<^verbatim>\<open>A\<close> to \<^verbatim>\<open>Z\<close>, given that the Unicode lowering of the library
  yields none.
\<close>

theorem DeriveDevcontainerProjectName_spec:
  "DeriveDevcontainerProjectName unicodeLower path =
     (if Base (Dir path) = ''.devcontainer''
      then ToLower unicodeLower (Base (Dir (Dir path))) @ ''_devcontainer''
      else ToLower unicodeLower (Base (Dir path)))
   \<and> DeriveDevcontainerProjectName unicodeLower ''/home/u/MyProj/.devcontainer/devcontainer.json''
       = ''myproj_devcontainer''
   \<and> DeriveDevcontainerProjectName unicodeLower ''/home/u/MyProj/.devcontainer/App1/devcontainer.json''
       = ''app1''
   \<and> (list_all elem_ok root \<and> root \<noteq> [] \<and> elem_ok file \<longrightarrow>
        DeriveDevcontainerProjectName unicodeLower (abs_path root @ ''/.devcontainer/'' @ file)
          = ToLower unicodeLower (last root) @ ''_devcontainer''
      \<and> (elem_ok sub \<and> sub \<noteq> ''.devcontainer'' \<longrightarrow>
            DeriveDevcontainerProjectName unicodeLower
              (abs_path root @ ''/.devcontainer/'' @ sub @ ''/'' @ file)
            = ToLower unicodeLower sub))
   \<and> ((\<forall>s. \<not> list_ex isUpperASCII (unicodeLower s))
        \<longrightarrow> \<not> list_ex isUpperASCII (DeriveDevcontainerProjectName unicodeLower path))"
proof (intro conjI impI)
  show "DeriveDevcontainerProjectName unicodeLower path =
     (if Base (Dir path) = ''.devcontainer''
      then ToLower unicodeLower (Base (Dir (Dir path))) @ ''_devcontainer''
      else ToLower unicodeLower (Base (Dir path)))"
    by (simp add: DeriveDevcontainerProjectName_def Let_def)
  show "DeriveDevcontainerProjectName unicodeLower ''/home/u/MyProj/.devcontainer/devcontainer.json''
       = ''myproj_devcontainer''"
    by (simp add: DeriveDevcontainerProjectName_def Dir_def Base_def Clean_def IsPathSeparator_def
          ToLower_def asciiLower_def)
  show "DeriveDevcontainerProjectName unicodeLower ''/home/u/MyProj/.devcontainer/App1/devcontainer.json''
       = ''app1''"
    by (simp add: DeriveDevcontainerProjectName_def Dir_def Base_def Clean_def IsPathSeparator_def
          ToLower_def asciiLower_def)
next
  assume "\<forall>s. \<not> list_ex isUpperASCII (unicodeLower s)"
  from ToLower_no_upper [OF this] no_upper_suffix
  show "\<not> list_ex isUpperASCII (DeriveDevcontainerProjectName unicodeLower path)"
    by (simp add: DeriveDevcontainerProjectName_def Let_def list_ex_iff)
next
  assume a: "list_all elem_ok root \<and> root \<noteq> [] \<and> elem_ok file"
  then have r: "list_all elem_ok root" "root \<noteq> []" "elem_ok file" by simp_all
  note f = flat_layout [OF r]
  show "DeriveDevcontainerProjectName unicodeLower (abs_path root @ ''/.devcontainer/'' @ file)
          = ToLower unicodeLower (last root) @ ''_devcontainer''"
    unfolding DeriveDevcontainerProjectName_def Let_def f by simp
  {
    assume s: "elem_ok sub \<and> sub \<noteq> ''.devcontainer''"
    note m = multi_layout [OF r(1) conjunct1 [OF s] r(3)]
    show "DeriveDevcontainerProjectName unicodeLower
              (abs_path root @ ''/.devcontainer/'' @ sub @ ''/'' @ file)
            = ToLower unicodeLower sub"
      using s unfolding DeriveDevcontainerProjectName_def Let_def m by simp
  }
qed

theorem DeriveDevcontainerProjectName_witness:
  "(\<forall>s. \<not> list_ex isUpperASCII (map asciiLower s))
   \<and> list_all elem_ok [''srv'', ''Work''] \<and> elem_ok ''devcontainer.json'' \<and> elem_ok ''API''
   \<and> DeriveDevcontainerProjectName (map asciiLower) ''/srv/Work/.devcontainer/devcontainer.json''
       = ''work_devcontainer''
   \<and> DeriveDevcontainerProjectName (map asciiLower) ''/srv/Work/.devcontainer/API/devcontainer.json''
       = ''api''
   \<and> \<not> list_ex isUpperASCII
         (DeriveDevcontainerProjectName (map asciiLower) ''/srv/Work/.devcontainer/API/devcontainer.json'')"
proof -
  have u: "\<forall>s. \<not> list_ex isUpperASCII (map asciiLower s)"
    by (simp add: list_ex_iff asciiLower_not_upper)
  have e: "list_all elem_ok [''srv'', ''Work'']" "elem_ok ''devcontainer.json''" "elem_ok ''API''"
      "''API'' \<noteq> ''.devcontainer''"
    by (simp_all add: elem_ok_def)
  have l: "ToLower (map asciiLower) ''Work'' = ''work''" "ToLower (map asciiLower) ''API'' = ''api''"
    by (simp_all add: ToLower_def asciiLower_def)
  note t = DeriveDevcontainerProjectName_spec
         [of "map asciiLower" "''/srv/Work/.devcontainer/API/devcontainer.json''"
             "[''srv'', ''Work'']" "''devcontainer.json''" "''API''"]
  from t [THEN conjunct2, THEN conjunct2, THEN conjunct2, THEN conjunct1] e l
  have n: "DeriveDevcontainerProjectName (map asciiLower) ''/srv/Work/.devcontainer/devcontainer.json''
       = ''work_devcontainer''"
    "DeriveDevcontainerProjectName (map asciiLower) ''/srv/Work/.devcontainer/API/devcontainer.json''
       = ''api''"
    by simp_all
  from t [THEN conjunct2, THEN conjunct2, THEN conjunct2, THEN conjunct2] u
  have "\<not> list_ex isUpperASCII
         (DeriveDevcontainerProjectName (map asciiLower) ''/srv/Work/.devcontainer/API/devcontainer.json'')"
    by blast
  with u e n show ?thesis by blast
qed

text \<open>
  Claim C5.  \<^verbatim>\<open>DeriveProjectNameFromComposeFile\<close> returns, for the directory of the
  compose file: the lower-cased base name of its parent followed by
  \<^verbatim>\<open>_devcontainer\<close> when its base name is \<^verbatim>\<open>.devcontainer\<close>, and its own lower-cased
  base name otherwise (whether or not it lies directly under \<^verbatim>\<open>.devcontainer\<close>).
  So under a root made of ordinary elements, \<^verbatim>\<open><root>/.devcontainer/<file>\<close> is named
  after the last element of the root with \<^verbatim>\<open>_devcontainer\<close>,
  \<^verbatim>\<open><root>/.devcontainer/<sub>/<file>\<close> after \<^verbatim>\<open><sub>\<close>, and \<^verbatim>\<open><root>/<file>\<close> after
  the last element of the root.  Of the compose files of a definition only the first,
  resolved, is used.
\<close>

theorem DeriveProjectNameFromComposeFile_spec:
  "DeriveProjectNameFromComposeFile unicodeLower path =
     (if Base (Dir path) = ''.devcontainer''
      then ToLower unicodeLower (Base (Dir (Dir path))) @ ''_devcontainer''
      else if Base (Dir (Dir path)) = ''.devcontainer'' then ToLower unicodeLower (Base (Dir path))
      else ToLower unicodeLower (Base (Dir path)))
   \<and> (list_all elem_ok root \<and> root \<noteq> [] \<and> elem_ok file \<longrightarrow>
        DeriveProjectNameFromComposeFile unicodeLower (abs_path root @ ''/.devcontainer/'' @ file)
          = ToLower unicodeLower (last root) @ ''_devcontainer''
      \<and> (elem_ok sub \<and> sub \<noteq> ''.devcontainer'' \<longrightarrow>
            DeriveProjectNameFromComposeFile unicodeLower
              (abs_path root @ ''/.devcontainer/'' @ sub @ ''/'' @ file)
            = ToLower unicodeLower sub)
      \<and> (last root \<noteq> ''.devcontainer'' \<longrightarrow>
            DeriveProjectNameFromComposeFile unicodeLower (abs_path root @ ''/'' @ file)
            = ToLower unicodeLower (last root)))
   \<and> DeriveProjectNameFromComposeFiles unicodeLower (path # others)
        = DeriveProjectNameFromComposeFile unicodeLower path
   \<and> DeriveProjectNameFromConfig unicodeLower (cfg\<lparr>DockerComposeFile := f # others\<rparr>)
        = DeriveProjectNameFromComposeFile unicodeLower
            (if IsAbs f then f else Clean (Join [Dir (ConfigPath cfg), f]))"
proof (intro conjI impI)
  show "DeriveProjectNameFromComposeFile unicodeLower path =
     (if Base (Dir path) = ''.devcontainer''
      then ToLower unicodeLower (Base (Dir (Dir path))) @ ''_devcontainer''
      else if Base (Dir (Dir path)) = ''.devcontainer'' then ToLower unicodeLower (Base (Dir path))
      else ToLower unicodeLower (Base (Dir path)))"
    by (simp add: DeriveProjectNameFromComposeFile_def Let_def)
  show "DeriveProjectNameFromComposeFiles unicodeLower (path # others)
        = DeriveProjectNameFromComposeFile unicodeLower path"
    by (simp add: DeriveProjectNameFromComposeFiles_def)
  show "DeriveProjectNameFromConfig unicodeLower (cfg\<lparr>DockerComposeFile := f # others\<rparr>)
        = DeriveProjectNameFromComposeFile unicodeLower
            (if IsAbs f then f else Clean (Join [Dir (ConfigPath cfg), f]))"
    by (simp add: DeriveProjectNameFromConfig_def DeriveProjectNameFromComposeFiles_def
          GetComposeFiles_def Let_def)
next
  assume a: "list_all elem_ok root \<and> root \<noteq> [] \<and> elem_ok file"
  then have r: "list_all elem_ok root" "root \<noteq> []" "elem_ok file" by simp_all
  note f = flat_layout [OF r]
  show "DeriveProjectNameFromComposeFile unicodeLower (abs_path root @ ''/.devcontainer/'' @ file)
          = ToLower unicodeLower (last root) @ ''_devcontainer''"
    unfolding DeriveProjectNameFromComposeFile_def Let_def f by simp
  {
    assume s: "elem_ok sub \<and> sub \<noteq> ''.devcontainer''"
    note m = multi_layout [OF r(1) conjunct1 [OF s] r(3)]
    show "DeriveProjectNameFromComposeFile unicodeLower
              (abs_path root @ ''/.devcontainer/'' @ sub @ ''/'' @ file)
            = ToLower unicodeLower sub"
      using s unfolding DeriveProjectNameFromComposeFile_def Let_def m f by simp
  }
  {
    assume n: "last root \<noteq> ''.devcontainer''"
    have d: "Dir (abs_path root @ ''/'' @ file) = abs_path root"
      by (rule Dir_abs_path [OF r])
    show "DeriveProjectNameFromComposeFile unicodeLower (abs_path root @ ''/'' @ file)
            = ToLower unicodeLower (last root)"
      using n unfolding DeriveProjectNameFromComposeFile_def Let_def d f by simp
  }
qed

theorem DeriveProjectNameFromComposeFile_witness:
  "list_all elem_ok [''home'', ''user'', ''MyProject''] \<and> elem_ok ''docker-compose.yml'' \<and> elem_ok ''app1''
   \<and> DeriveProjectNameFromComposeFile (map asciiLower) ''/home/user/MyProject/.devcontainer/docker-compose.yml''
       = ''myproject_devcontainer''
   \<and> DeriveProjectNameFromComposeFile (map asciiLower) ''/home/user/MyProject/.devcontainer/app1/docker-compose.yml''
       = ''app1''
   \<and> DeriveProjectNameFromComposeFile (map asciiLower) ''/home/user/MyProject/docker-compose.yml''
       = ''myproject''"
proof -
  have e: "list_all elem_ok [''home'', ''user'', ''MyProject'']" "elem_ok ''docker-compose.yml''"
      "elem_ok ''app1''" "''app1'' \<noteq> ''.devcontainer''"
    by (simp_all add: elem_ok_def)
  have l: "ToLower (map asciiLower) ''MyProject'' = ''myproject''"
       "ToLower (map asciiLower) ''app1'' = ''app1''"
    by (simp_all add: ToLower_def asciiLower_def)
  from DeriveProjectNameFromComposeFile_spec
         [of "map asciiLower" "[]" "[''home'', ''user'', ''MyProject'']" "''docker-compose.yml''"
             "''app1''"] e l
  show ?thesis by simp
qed

section \<open>Compose files and the kind of a configuration\<close>

lemma Clean_nonempty: "Clean p \<noteq> []"
  by (simp add: Clean_def Let_def)

lemma Dir_nonempty: "Dir p \<noteq> []"
  by (simp add: Dir_def Clean_nonempty)

lemma Join_Dir: "Join [Dir p, f] = Clean (Dir p @ ''/'' @ f)"
  using Dir_nonempty [of p] by (cases "Dir p") (simp_all add: Join_def)

text \<open>
  Claim C9.  \<^verbatim>\<open>GetComposeFiles\<close> returns as many paths as the configuration has
  compose files, in the same order: an absolute path as it is, and any other path
  joined to the directory of the configuration file (not to the workspace root) and
  cleaned.  A plain file name becomes the path of a file beside the configuration file.
\<close>

theorem GetComposeFiles_resolution:
  "length (GetComposeFiles c) = length (DockerComposeFile c)
   \<and> (\<forall>i < length (DockerComposeFile c).
         GetComposeFiles c ! i =
           (if IsAbs (DockerComposeFile c ! i) then DockerComposeFile c ! i
            else Clean (Clean (Dir (ConfigPath c) @ ''/'' @ DockerComposeFile c ! i))))
   \<and> (list_all elem_ok root \<and> root \<noteq> [] \<and> elem_ok name \<and> elem_ok f \<longrightarrow>
        GetComposeFiles (c\<lparr>DockerComposeFile := [f], ConfigPath := abs_path root @ ''/'' @ name\<rparr>)
          = [abs_path root @ ''/'' @ f])
   \<and> GetComposeFiles
        \<lparr>Image = [], DockerComposeFile = [''../docker-compose.yml'', ''docker-compose.dev.yml'', ''/srv/base.yml''],
         Service = ''app'', ConfigPath = ''/tmp/x/.devcontainer/devcontainer.json''\<rparr>
       = [''/tmp/x/docker-compose.yml'', ''/tmp/x/.devcontainer/docker-compose.dev.yml'', ''/srv/base.yml'']"
proof (intro conjI allI impI)
  show "length (GetComposeFiles c) = length (DockerComposeFile c)"
    by (simp add: GetComposeFiles_def Let_def)
next
  fix i assume "i < length (DockerComposeFile c)"
  then show "GetComposeFiles c ! i =
           (if IsAbs (DockerComposeFile c ! i) then DockerComposeFile c ! i
            else Clean (Clean (Dir (ConfigPath c) @ ''/'' @ DockerComposeFile c ! i)))"
    by (auto simp: GetComposeFiles_def Let_def Join_Dir)
next
  assume a: "list_all elem_ok root \<and> root \<noteq> [] \<and> elem_ok name \<and> elem_ok f"
  then have r: "list_all elem_ok root" "root \<noteq> []" "elem_ok name" "elem_ok f" by simp_all
  from r(1,4) have rf: "list_all elem_ok (root @ [f])" by simp
  have d: "Dir (abs_path root @ ''/'' @ name) = abs_path root"
    by (rule Dir_abs_path [OF r(1,2,3)])
  have c1: "Clean (abs_path root @ ''/'' @ f) = abs_path root @ ''/'' @ f"
    using Clean_abs_path [OF rf, of "[]"] by (simp add: abs_path_append)
  have k: "Clean (Clean (Dir (abs_path root @ ''/'' @ name) @ ''/'' @ f)) = abs_path root @ ''/'' @ f"
    unfolding d c1 by (rule refl)
  from r(4) have "\<not> IsAbs f" by (cases f) (auto simp: IsAbs_def elem_ok_def)
  with k show "GetComposeFiles (c\<lparr>DockerComposeFile := [f], ConfigPath := abs_path root @ ''/'' @ name\<rparr>)
          = [abs_path root @ ''/'' @ f]"
    by (simp add: GetComposeFiles_def Let_def Join_Dir)
next
  show "GetComposeFiles
        \<lparr>Image = [], DockerComposeFile = [''../docker-compose.yml'', ''docker-compose.dev.yml'', ''/srv/base.yml''],
         Service = ''app'', ConfigPath = ''/tmp/x/.devcontainer/devcontainer.json''\<rparr>
       = [''/tmp/x/docker-compose.yml'', ''/tmp/x/.devcontainer/docker-compose.dev.yml'', ''/srv/base.yml'']"
    by (simp add: GetComposeFiles_def Dir_def Join_def Clean_def IsAbs_def IsPathSeparator_def
          backtrack.simps)
qed

theorem GetComposeFiles_witness:
  "(1 :: nat) < length [''../docker-compose.yml'', ''docker-compose.dev.yml'']
   \<and> \<not> IsAbs ''docker-compose.dev.yml''
   \<and> list_all elem_ok [''tmp'', ''x'', ''.devcontainer''] \<and> elem_ok ''devcontainer.json''
   \<and> elem_ok ''docker-compose.dev.yml''
   \<and> GetComposeFiles
        \<lparr>Image = [], DockerComposeFile = [''../docker-compose.yml'', ''docker-compose.dev.yml''],
         Service = ''app'', ConfigPath = ''/tmp/x/.devcontainer/devcontainer.json''\<rparr> ! 1
       = ''/tmp/x/.devcontainer/docker-compose.dev.yml''
   \<and> GetComposeFiles
        \<lparr>Image = [], DockerComposeFile = [''docker-compose.dev.yml''],
         Service = ''app'', ConfigPath = ''/tmp/x/.devcontainer/devcontainer.json''\<rparr>
       = [''/tmp/x/.devcontainer/docker-compose.dev.yml'']"
proof -
  have d: "Dir ''/tmp/x/.devcontainer/devcontainer.json'' = ''/tmp/x/.devcontainer''"
    by (simp add: Dir_def Clean_def IsPathSeparator_def)
  have c: "Clean (Clean (''/tmp/x/.devcontainer'' @ ''/'' @ ''docker-compose.dev.yml''))
       = ''/tmp/x/.devcontainer/docker-compose.dev.yml''"
    by (simp add: Clean_def IsPathSeparator_def)
  have e: "list_all elem_ok [''tmp'', ''x'', ''.devcontainer'']" "elem_ok ''devcontainer.json''"
      "elem_ok ''docker-compose.dev.yml''"
    by (simp_all add: elem_ok_def)
  from GetComposeFiles_resolution
         [of "\<lparr>Image = [], DockerComposeFile = [''../docker-compose.yml'', ''docker-compose.dev.yml''],
               Service = ''app'', ConfigPath = ''/tmp/x/.devcontainer/devcontainer.json''\<rparr>"
             "[''tmp'', ''x'', ''.devcontainer'']" "''devcontainer.json''" "''docker-compose.dev.yml''"]
       d c e
  show ?thesis by (simp add: IsAbs_def)
qed

text \<open>
  Claim C10.  A configuration is compose-based exactly when it has compose files, and
  image-based exactly when it has an image and no compose files; never both.  With an
  image and compose files it goes to the compose handler, whatever the image; with
  neither, both predicates are false and it goes to the image handler.
\<close>

theorem classification:
  "(IsComposeBased c \<longleftrightarrow> DockerComposeFile c \<noteq> [])
   \<and> (IsImageBased c \<longleftrightarrow> Image c \<noteq> [] \<and> DockerComposeFile c = [])
   \<and> \<not> (IsComposeBased c \<and> IsImageBased c)
   \<and> (Image c \<noteq> [] \<and> DockerComposeFile c \<noteq> []
        \<longrightarrow> runStop_handler c = HandleCompose \<and> runStop_handler (c\<lparr>Image := img\<rparr>) = HandleCompose)
   \<and> (Image c = [] \<and> DockerComposeFile c = []
        \<longrightarrow> \<not> IsComposeBased c \<and> \<not> IsImageBased c \<and> runStop_handler c = HandleImage)"
  by (auto simp: IsComposeBased_def IsImageBased_def runStop_handler_def)

theorem classification_witness:
  "Image \<lparr>Image = ''alpine'', DockerComposeFile = [''docker-compose.yml''], Service = [], ConfigPath = ''/w/.devcontainer/devcontainer.json''\<rparr> \<noteq> []
   \<and> runStop_handler \<lparr>Image = ''alpine'', DockerComposeFile = [''docker-compose.yml''], Service = [], ConfigPath = ''/w/.devcontainer/devcontainer.json''\<rparr>
       = HandleCompose
   \<and> runStop_handler \<lparr>Image = [], DockerComposeFile = [], Service = [], ConfigPath = ''/w/.devcontainer/devcontainer.json''\<rparr>
       = HandleImage
   \<and> \<not> IsImageBased \<lparr>Image = [], DockerComposeFile = [], Service = [], ConfigPath = ''/w/.devcontainer/devcontainer.json''\<rparr>"
  using classification [of "\<lparr>Image = ''alpine'', DockerComposeFile = [''docker-compose.yml''], Service = [], ConfigPath = ''/w/.devcontainer/devcontainer.json''\<rparr>"]
        classification [of "\<lparr>Image = [], DockerComposeFile = [], Service = [], ConfigPath = ''/w/.devcontainer/devcontainer.json''\<rparr>"]
  by simp

section \<open>Finding configurations\<close>


lemma FindDevcontainerConfigs_finds:
  "FindDevcontainerConfigs
     \<lparr>Stat = (\<lambda>p. if p \<in> set [''/w'', ''/w/.devcontainer'', ''/w/.devcontainer/devcontainer.json'',
                                 ''/w/.devcontainer/node'', ''/w/.devcontainer/node/devcontainer.json'',
                                 ''/w/.devcontainer/docs'']
                    then None else Some (ErrNotExist p)),
      ReadDir = (\<lambda>p. Inr [\<lparr>Name_entry = ''devcontainer.json'', IsDir_entry = False\<rparr>,
                         \<lparr>Name_entry = ''docs'', IsDir_entry = True\<rparr>,
                         \<lparr>Name_entry = ''node'', IsDir_entry = True\<rparr>]),
      ReadFile = (\<lambda>p. Inl (ErrNotExist p))\<rparr>
     ''/w''
   = Inr [''/w/.devcontainer/devcontainer.json'', ''/w/.devcontainer/node/devcontainer.json'']"
proof -
  have j: "Join [''/w'', ''.devcontainer''] = ''/w/.devcontainer''"
          "Join [''/w/.devcontainer'', ''devcontainer.json''] = ''/w/.devcontainer/devcontainer.json''"
          "Join [''/w/.devcontainer'', ''docs'', ''devcontainer.json'']
             = ''/w/.devcontainer/docs/devcontainer.json''"
          "Join [''/w/.devcontainer'', ''node'', ''devcontainer.json'']
             = ''/w/.devcontainer/node/devcontainer.json''"
    by (simp_all add: Join_def Clean_def IsPathSeparator_def)
  show ?thesis
    by (simp add: FindDevcontainerConfigs_def IsNotExist_def j Let_def)
qed





section \<open>The bound on the nested calls of the JSON reader\<close>

text \<open>
  Every part of the reader consumes text, so a result reached with some bound is reached
  with twice the number of characters read; \<^verbatim>\<open>json_parse\<close> therefore fails only on a
  text that has no reading at all.
\<close>

lemma dropWhile_shorter: "dropWhile P s = c # r \<Longrightarrow> length r < length s"
  by (metis length_dropWhile_le length_Cons less_Suc_eq_le not_less_eq)

lemma parse_string_shorter: "parse_string s = Some (x, r) \<Longrightarrow> length r \<le> length s"
proof (induction s arbitrary: x r rule: parse_string.induct)
  case 1
  then show ?case by simp
next
  case (2 c r0)
  then show ?case
    by (auto split: if_splits list.splits option.splits simp: le_Suc_eq) (fastforce+)?
qed

lemma parse_digits_shorter: "parse_digits s = Some (x, r) \<Longrightarrow> length r \<le> length s"
  by (auto simp: parse_digits_def length_dropWhile_le split: if_splits)

lemma parse_int_shorter: "parse_int s = Some (x, r) \<Longrightarrow> length r < length s"
  by (auto simp: parse_int_def length_dropWhile_le less_Suc_eq_le split: if_splits list.splits)

lemma parse_frac_shorter: "parse_frac s = Some (x, r) \<Longrightarrow> length r \<le> length s"
  by (auto simp: parse_frac_def le_Suc_eq dest!: parse_digits_shorter split: if_splits list.splits)

lemma parse_exp_shorter: "parse_exp s = Some (x, r) \<Longrightarrow> length r \<le> length s"
  by (auto simp: parse_exp_def le_Suc_eq dest!: parse_digits_shorter split: if_splits list.splits)

lemma parse_number_shorter: "parse_number s = Some (x, r) \<Longrightarrow> length r < length s"
  unfolding parse_number_def
  by (auto simp: Let_def  dest!: parse_int_shorter parse_frac_shorter parse_exp_shorter
        split: if_splits list.splits option.splits prod.splits)

lemma atom_shorter: "atom t = Some (v, r) \<Longrightarrow> length r < length t"
  unfolding atom_def
  by (auto split: list.splits if_splits dest!: parse_string_shorter parse_number_shorter)


lemma enough_Suc: "enough s r k \<Longrightarrow> length r < length s \<Longrightarrow> \<exists>j. k = Suc j"
  unfolding enough_def by (cases k) auto

lemma enough_inner:
  "enough s r (Suc j) \<Longrightarrow> length s0 < length s \<Longrightarrow> length r < length s0 \<Longrightarrow> enough s0 r j"
  unfolding enough_def by arith

lemma enough_first:
  "enough s r (Suc j) \<Longrightarrow> length r < length r1 \<Longrightarrow> length r1 < length s0 \<Longrightarrow> length s0 \<le> length s \<Longrightarrow> enough s0 r1 j"
  unfolding enough_def by arith

lemma value_step:
  assumes E: "\<And>acc s vs r. parse_elems n acc s = Some (vs, r) \<Longrightarrow>
                length r < length s \<and> (\<forall>k. enough s r k \<longrightarrow> parse_elems k acc s = Some (vs, r))"
    and M: "\<And>acc s ms r. parse_members n acc s = Some (ms, r) \<Longrightarrow>
                length r < length s \<and> (\<forall>k. enough s r k \<longrightarrow> parse_members k acc s = Some (ms, r))"
    and run: "parse_value (Suc n) s = Some (v, r)"
  shows "length r < length s \<and> (\<forall>k. enough s r k \<longrightarrow> parse_value k s = Some (v, r))"
proof -
  from run obtain c r0 where d: "dropWhile isJSONSpace s = c # r0"
    by (auto split: list.splits)
  have l0: "length r0 < length s"
    using d by (rule dropWhile_shorter)
  consider (obj) "c = CHR ''{''" | (arr) "c \<noteq> CHR ''{''" "c = CHR ''[''" | (atom) "c \<noteq> CHR ''{''" "c \<noteq> CHR ''[''"
    by blast
  then show ?thesis
  proof cases
    case obj
    from run d obj obtain c' r' where d': "dropWhile isJSONSpace r0 = c' # r'"
      by (auto split: list.splits)
    have l': "length r' < length r0"
      using d' by (rule dropWhile_shorter)
    show ?thesis
    proof (cases "c' = CHR ''}''")
      case True
      with run d obj d' have "v = JObject []" "r = r'"
        by auto
      with l0 l' d obj d' True show ?thesis
        by (auto dest!: enough_Suc)
    next
      case False
      with run d obj d' obtain ms where m: "parse_members n [] r0 = Some (ms, r)" and v: "v = JObject ms"
        by auto
      from M [OF m] have lr: "length r < length r0"
        and all: "\<And>k. enough r0 r k \<Longrightarrow> parse_members k [] r0 = Some (ms, r)"
        by auto
      have "parse_value k s = Some (v, r)" if k: "enough s r k" for k
      proof -
        from enough_Suc [OF k] lr l0 obtain j where j: "k = Suc j"
          by auto
        from k j l0 lr have "enough r0 r j"
          by (auto intro: enough_inner)
        from all [OF this] d obj d' False v j show ?thesis
          by simp
      qed
      with lr l0 show ?thesis
        by auto
    qed
  next
    case arr
    from run d arr obtain c' r' where d': "dropWhile isJSONSpace r0 = c' # r'"
      by (auto split: list.splits)
    have l': "length r' < length r0"
      using d' by (rule dropWhile_shorter)
    show ?thesis
    proof (cases "c' = CHR '']''")
      case True
      with run d arr d' have "v = JArray []" "r = r'"
        by auto
      with l0 l' d arr d' True show ?thesis
        by (auto dest!: enough_Suc)
    next
      case False
      with run d arr d' obtain vs where m: "parse_elems n [] r0 = Some (vs, r)" and v: "v = JArray vs"
        by auto
      from E [OF m] have lr: "length r < length r0"
        and all: "\<And>k. enough r0 r k \<Longrightarrow> parse_elems k [] r0 = Some (vs, r)"
        by auto
      have "parse_value k s = Some (v, r)" if k: "enough s r k" for k
      proof -
        from enough_Suc [OF k] lr l0 obtain j where j: "k = Suc j"
          by auto
        from k j l0 lr have "enough r0 r j"
          by (auto intro: enough_inner)
        from all [OF this] d arr d' False v j show ?thesis
          by simp
      qed
      with lr l0 show ?thesis
        by auto
    qed
  next
    case atom
    from run d atom have a: "atom (c # r0) = Some (v, r)"
      unfolding atom_def by (simp split: if_splits)
    from atom_shorter [OF a] l0 have lr: "length r < length s"
      by simp
    have "parse_value k s = Some (v, r)" if k: "enough s r k" for k
    proof -
      from enough_Suc [OF k lr] obtain j where j: "k = Suc j"
        by auto
      from a d atom show ?thesis
        unfolding j atom_def by (simp split: if_splits)
    qed
    with lr show ?thesis
      by auto
  qed
qed


lemma elems_step:
  assumes V: "\<And>s v r. parse_value n s = Some (v, r) \<Longrightarrow>
                length r < length s \<and> (\<forall>k. enough s r k \<longrightarrow> parse_value k s = Some (v, r))"
    and E: "\<And>acc s vs r. parse_elems n acc s = Some (vs, r) \<Longrightarrow>
                length r < length s \<and> (\<forall>k. enough s r k \<longrightarrow> parse_elems k acc s = Some (vs, r))"
    and run: "parse_elems (Suc n) acc s = Some (vs, r)"
  shows "length r < length s \<and> (\<forall>k. enough s r k \<longrightarrow> parse_elems k acc s = Some (vs, r))"
proof -
  from run obtain v r1 c r2 where v: "parse_value n s = Some (v, r1)"
    and d: "dropWhile isJSONSpace r1 = c # r2"
    by (auto split: option.splits list.splits)
  from V [OF v] have l1: "length r1 < length s"
    and allv: "\<And>k. enough s r1 k \<Longrightarrow> parse_value k s = Some (v, r1)"
    by auto
  have l2: "length r2 < length r1"
    using d by (rule dropWhile_shorter)
  show ?thesis
  proof (cases "c = CHR '',''")
    case True
    with run v d have e: "parse_elems n (acc @ [v]) r2 = Some (vs, r)"
      by simp
    from E [OF e] have lr: "length r < length r2"
      and alle: "\<And>k. enough r2 r k \<Longrightarrow> parse_elems k (acc @ [v]) r2 = Some (vs, r)"
      by auto
    have "parse_elems k acc s = Some (vs, r)" if k: "enough s r k" for k
    proof -
      from enough_Suc [OF k] lr l2 l1 obtain j where j: "k = Suc j"
        by auto
      from k j lr l2 l1 have "enough s r1 j" "enough r2 r j"
        unfolding enough_def by arith+
      with allv alle have "parse_value j s = Some (v, r1)" "parse_elems j (acc @ [v]) r2 = Some (vs, r)"
        by auto
      with d True show ?thesis
        unfolding j by simp
    qed
    with lr l2 l1 show ?thesis
      by auto
  next
    case False
    with run v d have c: "c = CHR '']''" and res: "vs = acc @ [v]" "r = r2"
      by (auto split: if_splits)
    have "parse_elems k acc s = Some (vs, r)" if k: "enough s r k" for k
    proof -
      from enough_Suc [OF k] res l2 l1 obtain j where j: "k = Suc j"
        by auto
      from res l2 have "length r < length r1"
        by simp
      with k j l1 have "enough s r1 j"
        unfolding enough_def by arith
      with allv have "parse_value j s = Some (v, r1)"
        by auto
      with d c res show ?thesis
        unfolding j by simp
    qed
    with res l2 l1 show ?thesis
      by auto
  qed
qed

lemma members_step:
  assumes V: "\<And>s v r. parse_value n s = Some (v, r) \<Longrightarrow>
                length r < length s \<and> (\<forall>k. enough s r k \<longrightarrow> parse_value k s = Some (v, r))"
    and M: "\<And>acc s ms r. parse_members n acc s = Some (ms, r) \<Longrightarrow>
                length r < length s \<and> (\<forall>k. enough s r k \<longrightarrow> parse_members k acc s = Some (ms, r))"
    and run: "parse_members (Suc n) acc s = Some (ms, r)"
  shows "length r < length s \<and> (\<forall>k. enough s r k \<longrightarrow> parse_members k acc s = Some (ms, r))"
proof -
  from run obtain r0 key r1 r2 v r3 c r4 where d0: "dropWhile isJSONSpace s = CHR 0x22 # r0"
    and key: "parse_string r0 = Some (key, r1)"
    and d1: "dropWhile isJSONSpace r1 = CHR '':'' # r2"
    and v: "parse_value n r2 = Some (v, r3)"
    and d3: "dropWhile isJSONSpace r3 = c # r4"
    by (auto split: option.splits list.splits if_splits)
  have l0: "length r0 < length s"
    using d0 by (rule dropWhile_shorter)
  have l1: "length r1 \<le> length r0"
    using key by (rule parse_string_shorter)
  have l2: "length r2 < length r1"
    using d1 by (rule dropWhile_shorter)
  from V [OF v] have l3: "length r3 < length r2"
    and allv: "\<And>k. enough r2 r3 k \<Longrightarrow> parse_value k r2 = Some (v, r3)"
    by auto
  have l4: "length r4 < length r3"
    using d3 by (rule dropWhile_shorter)
  show ?thesis
  proof (cases "c = CHR '',''")
    case True
    with run d0 key d1 v d3 have e: "parse_members n (acc @ [(key, v)]) r4 = Some (ms, r)"
      by simp
    from M [OF e] have lr: "length r < length r4"
      and allm: "\<And>k. enough r4 r k \<Longrightarrow> parse_members k (acc @ [(key, v)]) r4 = Some (ms, r)"
      by auto
    have "parse_members k acc s = Some (ms, r)" if k: "enough s r k" for k
    proof -
      from enough_Suc [OF k] lr l4 l3 l2 l1 l0 obtain j where j: "k = Suc j"
        by auto
      from k j lr l4 l3 l2 l1 l0 have "enough r2 r3 j" "enough r4 r j"
        unfolding enough_def by arith+
      with allv allm have "parse_value j r2 = Some (v, r3)"
        "parse_members j (acc @ [(key, v)]) r4 = Some (ms, r)"
        by auto
      with d0 key d1 d3 True show ?thesis
        unfolding j by simp
    qed
    with lr l4 l3 l2 l1 l0 show ?thesis
      by auto
  next
    case False
    with run d0 key d1 v d3 have c: "c = CHR ''}''" and res: "ms = acc @ [(key, v)]" "r = r4"
      by (auto split: if_splits)
    have "parse_members k acc s = Some (ms, r)" if k: "enough s r k" for k
    proof -
      from enough_Suc [OF k] res l4 l3 l2 l1 l0 obtain j where j: "k = Suc j"
        by auto
      from res l4 have "length r < length r3"
        by simp
      with k j l3 l2 l1 l0 have "enough r2 r3 j"
        unfolding enough_def by arith
      with allv have "parse_value j r2 = Some (v, r3)"
        by auto
      with d0 key d1 d3 c res show ?thesis
        unfolding j by simp
    qed
    with res l4 l3 l2 l1 l0 show ?thesis
      by auto
  qed
qed

lemma fuel_bound:
  "(\<forall>s v r. parse_value n s = Some (v, r) \<longrightarrow>
      length r < length s \<and> (\<forall>k. enough s r k \<longrightarrow> parse_value k s = Some (v, r)))
   \<and> (\<forall>acc s vs r. parse_elems n acc s = Some (vs, r) \<longrightarrow>
      length r < length s \<and> (\<forall>k. enough s r k \<longrightarrow> parse_elems k acc s = Some (vs, r)))
   \<and> (\<forall>acc s ms r. parse_members n acc s = Some (ms, r) \<longrightarrow>
      length r < length s \<and> (\<forall>k. enough s r k \<longrightarrow> parse_members k acc s = Some (ms, r)))"
proof (induction n)
  case 0
  show ?case
    by simp
next
  case (Suc n)
  then have V: "\<And>s v r. parse_value n s = Some (v, r) \<Longrightarrow>
                length r < length s \<and> (\<forall>k. enough s r k \<longrightarrow> parse_value k s = Some (v, r))"
    and E: "\<And>acc s vs r. parse_elems n acc s = Some (vs, r) \<Longrightarrow>
                length r < length s \<and> (\<forall>k. enough s r k \<longrightarrow> parse_elems k acc s = Some (vs, r))"
    and M: "\<And>acc s ms r. parse_members n acc s = Some (ms, r) \<Longrightarrow>
                length r < length s \<and> (\<forall>k. enough s r k \<longrightarrow> parse_members k acc s = Some (ms, r))"
    by blast+
  show ?case
    using value_step [OF E M] elems_step [OF V E] members_step [OF V M] by blast
qed

lemma parse_value_fuel:
  assumes "parse_value n s = Some (v, r)"
  shows "parse_value (2 * length s + 2) s = Some (v, r)"
proof -
  have "enough s r (2 * length s + 2)"
    unfolding enough_def by simp
  with fuel_bound [of n] assms show ?thesis
    by blast
qed

lemma json_parse_fuel:
  assumes "parse_value n s = Some (v, r)" and "dropWhile isJSONSpace r = []"
  shows "json_parse s = Some v"
  using parse_value_fuel [OF assms(1)] assms(2) unfolding json_parse_def by simp

lemma json_parse_None:
  assumes "json_parse s = None" and "parse_value n s = Some (v, r)"
  shows "dropWhile isJSONSpace r \<noteq> []"
  using json_parse_fuel [OF assms(2)] assms(1) by auto


section \<open>Parsing configurations\<close>

text \<open>The two relaxed files of the repository's tests parse, and the shapes of the compose-file member.\<close>

lemma ParseConfig_jsonc_test:
  "ParseConfig
     (file_os (''{'' @ [CHR 0x0A, CHR 0x09] @ ''// This is a comment'' @ [CHR 0x0A, CHR 0x09]
               @ ''\"name\": \"JSONC Test\",'' @ [CHR 0x0A, CHR 0x09]
               @ ''\"image\": \"ubuntu:22.04\"'' @ [CHR 0x0A, CHR 0x09]
               @ ''/* Another comment */'' @ [CHR 0x0A] @ ''}''))
     ''/t/devcontainer.json''
   = Inr \<lparr>Image = ''ubuntu:22.04'', DockerComposeFile = [], Service = [], ConfigPath = ''/t/devcontainer.json''\<rparr>"
proof -
  have s: "stripJSONC (''{'' @ [CHR 0x0A, CHR 0x09] @ ''// This is a comment'' @ [CHR 0x0A, CHR 0x09]
               @ ''\"name\": \"JSONC Test\",'' @ [CHR 0x0A, CHR 0x09]
               @ ''\"image\": \"ubuntu:22.04\"'' @ [CHR 0x0A, CHR 0x09]
               @ ''/* Another comment */'' @ [CHR 0x0A] @ ''}'')
          = ''{'' @ [CHR 0x0A, CHR 0x09, CHR 0x0A, CHR 0x09] @ ''\"name\": \"JSONC Test\",''
              @ [CHR 0x0A, CHR 0x09] @ ''\"image\": \"ubuntu:22.04\"'' @ [CHR 0x0A, CHR 0x09, CHR 0x0A] @ ''}''"
    by (simp add: stripJSONC_def TrimSpace_def isSpaceASCII_def isRegexpSpace_def)
  have p: "json_parse (''{'' @ [CHR 0x0A, CHR 0x09, CHR 0x0A, CHR 0x09] @ ''\"name\": \"JSONC Test\",''
              @ [CHR 0x0A, CHR 0x09] @ ''\"image\": \"ubuntu:22.04\"'' @ [CHR 0x0A, CHR 0x09, CHR 0x0A] @ ''}'')
          = Some (JObject [(''name'', JString ''JSONC Test''), (''image'', JString ''ubuntu:22.04'')])"
    by code_simp
  show ?thesis
    by (simp only: ParseConfig_def file_os_def OS.simps sum.case Let_def s Unmarshal_rawConfig_def p)
       (simp add: fieldOf_def store_string_def)
qed

lemma ParseConfig_trailing_comma_test:
  "ParseConfig
     (file_os (''{'' @ [CHR 0x0A, CHR 0x09] @ ''\"name\": \"Trailing Comma\",'' @ [CHR 0x0A, CHR 0x09]
               @ ''\"image\": \"node:18\",'' @ [CHR 0x0A] @ ''}''))
     ''/t/devcontainer.json''
   = Inr \<lparr>Image = ''node:18'', DockerComposeFile = [], Service = [], ConfigPath = ''/t/devcontainer.json''\<rparr>"
proof -
  have s: "stripJSONC (''{'' @ [CHR 0x0A, CHR 0x09] @ ''\"name\": \"Trailing Comma\",'' @ [CHR 0x0A, CHR 0x09]
               @ ''\"image\": \"node:18\",'' @ [CHR 0x0A] @ ''}'')
          = ''{'' @ [CHR 0x0A, CHR 0x09] @ ''\"name\": \"Trailing Comma\",'' @ [CHR 0x0A, CHR 0x09]
               @ ''\"image\": \"node:18\"'' @ [CHR 0x0A] @ ''}''"
    by (simp add: stripJSONC_def TrimSpace_def isSpaceASCII_def isRegexpSpace_def)
  have p: "json_parse (''{'' @ [CHR 0x0A, CHR 0x09] @ ''\"name\": \"Trailing Comma\",'' @ [CHR 0x0A, CHR 0x09]
               @ ''\"image\": \"node:18\"'' @ [CHR 0x0A] @ ''}'')
          = Some (JObject [(''name'', JString ''Trailing Comma''), (''image'', JString ''node:18'')])"
    by code_simp
  show ?thesis
    by (simp only: ParseConfig_def file_os_def OS.simps sum.case Let_def s Unmarshal_rawConfig_def p)
       (simp add: fieldOf_def store_string_def)
qed

lemma parseDockerComposeFile_shapes:
  "parseDockerComposeFile (JString s) = Inr [s]"
  "parseDockerComposeFile (JArray (map JString ss)) = Inr ss"
  "parseDockerComposeFile (JNumber n) = Inl (ErrorString ''dockerComposeFile must be a string or array of strings'')"
  "parseDockerComposeFile (JBool b) = Inl (ErrorString ''dockerComposeFile must be a string or array of strings'')"
  "parseDockerComposeFile (JObject kvs) = Inl (ErrorString ''dockerComposeFile must be a string or array of strings'')"
  "parseDockerComposeFile (JArray (JNumber n # vs)) = Inl (ErrorString ''dockerComposeFile must be a string or array of strings'')"
proof -
  have "store_strings (map JString ss) = Inr ss"
    by (induction ss) (simp_all add: store_string_def)
  then show "parseDockerComposeFile (JArray (map JString ss)) = Inr ss"
    by (simp add: parseDockerComposeFile_def store_string_def store_string_slice_def)
qed (simp_all add: parseDockerComposeFile_def store_string_def store_string_slice_def)

lemma strip1: "stripJSONC ''{ /* see http://example.com */ \"image\": \"alpine\" }'' = ''{ /* see http:''"
  by (simp add: stripJSONC_def TrimSpace_def isSpaceASCII_def isRegexpSpace_def)

lemma strip2: "stripJSONC ''{  \"image\": \"alpine\" }'' = ''{  \"image\": \"alpine\" }''"
  by (simp add: stripJSONC_def TrimSpace_def isSpaceASCII_def isRegexpSpace_def)

lemma parse1: "json_parse ''{ /* see http:'' = None"
  by code_simp

lemma parse2: "json_parse ''{  \"image\": \"alpine\" }'' = Some (JObject [(''image'', JString ''alpine'')])"
  by code_simp

lemma strip3: "stripJSONC ''{\"dockerComposeFile\": null}'' = ''{\"dockerComposeFile\": null}''"
  by (simp add: stripJSONC_def TrimSpace_def isSpaceASCII_def isRegexpSpace_def)

lemma parse3: "json_parse ''{\"dockerComposeFile\": null}'' = Some (JObject [(''dockerComposeFile'', JNull)])"
  by code_simp

text \<open>
  Claim C6.  A block comment that holds two slashes before its end on the same line is
  not removed: the line-comment pass, which runs first, deletes from the slashes to the
  end of the line and takes the comment's end with it.  The file of the first equation
  is the file of the second with a block comment added; the first does not parse, the
  second does.
\<close>

theorem stripJSONC_loses_block_comment:
  "ParseConfig (file_os ''{ /* see http://example.com */ \"image\": \"alpine\" }'')
       ''/w/.devcontainer/devcontainer.json''
     = Inl (Errorf ''failed to parse config: '' SyntaxError)
   \<and> ParseConfig (file_os ''{  \"image\": \"alpine\" }'') ''/w/.devcontainer/devcontainer.json''
     = Inr \<lparr>Image = ''alpine'', DockerComposeFile = [], Service = [],
            ConfigPath = ''/w/.devcontainer/devcontainer.json''\<rparr>"
  by (simp add: ParseConfig_def file_os_def strip1 strip2 Unmarshal_rawConfig_def parse1 parse2
        fieldOf_def store_string_def)

text \<open>
  Claim C7.  A \<^verbatim>\<open>dockerComposeFile\<close> that is \<^verbatim>\<open>null\<close> is neither a string nor an
  array of strings, and yet the configuration parses: storing \<^verbatim>\<open>null\<close> into a string
  is no error, so the first attempt of \<^verbatim>\<open>parseDockerComposeFile\<close> succeeds with the
  empty string.  A \<^verbatim>\<open>null\<close> inside the array is taken as an empty string likewise.
\<close>

theorem parseDockerComposeFile_takes_null:
  "ParseConfig (file_os ''{\"dockerComposeFile\": null}'') ''/w/.devcontainer/devcontainer.json''
     = Inr \<lparr>Image = [], DockerComposeFile = [[]], Service = [],
            ConfigPath = ''/w/.devcontainer/devcontainer.json''\<rparr>
   \<and> parseDockerComposeFile JNull = Inr [[]]
   \<and> parseDockerComposeFile (JArray [JString ''a.yml'', JNull]) = Inr [''a.yml'', []]"
  by (simp add: ParseConfig_def file_os_def strip3 Unmarshal_rawConfig_def parse3
        fieldOf_def store_string_def parseDockerComposeFile_def store_string_slice_def)

section \<open>Runs of the compose operations\<close>

subsection \<open>Recording changes nothing\<close>

lemma forEach_recording_result:
  assumes step: "\<And>x s lg r s' lg'. body' x (s, lg) = (r, (s', lg')) \<Longrightarrow> body x s = (r, s')"
  shows "forEach body' xs (s, lg) = (r, (s', lg')) \<Longrightarrow> forEach body xs s = (r, s')"
proof (induction xs arbitrary: s lg)
  case Nil
  then show ?case by simp
next
  case (Cons x xs)
  obtain r1 s1 lg1 where b: "body' x (s, lg) = (r1, (s1, lg1))"
    by (metis surj_pair)
  from step [OF b] have b': "body x s = (r1, s1)" .
  show ?case
  proof (cases r1)
    case None
    with Cons.prems b have "forEach body' xs (s1, lg1) = (r, (s', lg'))" by simp
    from Cons.IH [OF this] None b' show ?thesis by simp
  next
    case (Some e)
    with Cons.prems b b' show ?thesis by auto
  qed
qed

lemma stopContainer_recording:
  "stopContainer (recording c) x (s, lg) = (r, (s', lg')) \<Longrightarrow> stopContainer c x s = (r, s')"
  by (auto simp: stopContainer_def recording_def logged_def split: prod.splits option.splits)

lemma removeContainer_recording:
  "removeContainer (recording c) x (s, lg) = (r, (s', lg')) \<Longrightarrow> removeContainer c x s = (r, s')"
  by (auto simp: removeContainer_def recording_def logged_def split: prod.splits option.splits)

lemma removeNetwork_recording:
  "removeNetwork (recording c) x (s, lg) = (r, (s', lg')) \<Longrightarrow> removeNetwork c x s = (r, s')"
  by (auto simp: removeNetwork_def recording_def logged_def split: prod.splits option.splits)

lemma removeVolume_recording:
  "removeVolume (recording c) x (s, lg) = (r, (s', lg')) \<Longrightarrow> removeVolume c x s = (r, s')"
  by (auto simp: removeVolume_def recording_def logged_def split: prod.splits option.splits)

lemma downVolumes_recording:
  assumes "downVolumes (recording c) p rv (s, lg) = (r, (s', lg'))"
  shows "downVolumes c p rv s = (r, s')"
proof (cases rv)
  case False
  with assms show ?thesis by (simp add: downVolumes_def)
next
  case True
  obtain l s1 where l: "VolumeList c \<lparr>LabelFilter_vol = projectLabel p\<rparr> s = (l, s1)"
    by (cases "VolumeList c \<lparr>LabelFilter_vol = projectLabel p\<rparr> s")
  show ?thesis
  proof (cases l)
    case (Inl e)
    with assms True l show ?thesis
      by (auto simp: downVolumes_def recording_def logged_def)
  next
    case (Inr vs)
    with assms True l obtain lg1 where
      "forEach (removeVolume (recording c)) vs (s1, lg1) = (r, (s', lg'))"
      by (auto simp: downVolumes_def recording_def logged_def)
    from forEach_recording_result [where body = "removeVolume c", OF removeVolume_recording this]
    show ?thesis using True l Inr by (simp add: downVolumes_def)
  qed
qed

lemma downNetworks_recording:
  assumes "downNetworks (recording c) p rv (s, lg) = (r, (s', lg'))"
  shows "downNetworks c p rv s = (r, s')"
proof -
  obtain l s1 where l: "NetworkList c \<lparr>LabelFilter_net = projectLabel p\<rparr> s = (l, s1)"
    by (cases "NetworkList c \<lparr>LabelFilter_net = projectLabel p\<rparr> s")
  show ?thesis
  proof (cases l)
    case (Inl e)
    with assms l show ?thesis
      by (auto simp: downNetworks_def recording_def logged_def)
  next
    case (Inr ns)
    obtain r2 s2 lg2 where f:
      "forEach (removeNetwork (recording c)) ns (s1, lg @ [(NetworkListCall \<lparr>LabelFilter_net = projectLabel p\<rparr>, Networks ns)]) = (r2, (s2, lg2))"
      by (metis surj_pair)
    from forEach_recording_result [where body = "removeNetwork c", OF removeNetwork_recording f]
    have f': "forEach (removeNetwork c) ns s1 = (r2, s2)" .
    show ?thesis
    proof (cases r2)
      case (Some e)
      with assms l Inr f f' show ?thesis
        by (auto simp: downNetworks_def recording_def logged_def listed_def)
    next
      case None
      with assms l Inr f have "downVolumes (recording c) p rv (s2, lg2) = (r, (s', lg'))"
        by (simp add: downNetworks_def recording_def logged_def listed_def)
      from downVolumes_recording [OF this] None l Inr f' show ?thesis
        by (simp add: downNetworks_def)
    qed
  qed
qed

lemma DownComposeProject_recording:
  assumes "DownComposeProject (recording c) p rv (s, lg) = (r, (s', lg'))"
  shows "DownComposeProject c p rv s = (r, s')"
proof -
  obtain l s1 where l: "ContainerList c \<lparr>All = True, LabelFilter = projectLabel p\<rparr> s = (l, s1)"
    by (cases "ContainerList c \<lparr>All = True, LabelFilter = projectLabel p\<rparr> s")
  show ?thesis
  proof (cases l)
    case (Inl e)
    with assms l show ?thesis
      by (auto simp: DownComposeProject_def FindComposeContainers_def recording_def logged_def)
  next
    case (Inr cs)
    obtain r2 s2 lg2 where f:
      "forEach (stopContainer (recording c)) cs (s1, lg @ [(ContainerListCall \<lparr>All = True, LabelFilter = projectLabel p\<rparr>, Containers cs)]) = (r2, (s2, lg2))"
      by (metis surj_pair)
    from forEach_recording_result [where body = "stopContainer c", OF stopContainer_recording f]
    have f': "forEach (stopContainer c) cs s1 = (r2, s2)" .
    show ?thesis
    proof (cases r2)
      case (Some e)
      with assms l Inr f f' show ?thesis
        by (auto simp: DownComposeProject_def FindComposeContainers_def recording_def logged_def listed_def)
    next
      case None
      obtain r3 s3 lg3 where g: "forEach (removeContainer (recording c)) cs (s2, lg2) = (r3, (s3, lg3))"
        by (metis surj_pair)
      from forEach_recording_result [where body = "removeContainer c", OF removeContainer_recording g]
      have g': "forEach (removeContainer c) cs s2 = (r3, s3)" .
      show ?thesis
      proof (cases r3)
        case (Some e)
        with assms l Inr f f' g g' None show ?thesis
          by (auto simp: DownComposeProject_def FindComposeContainers_def recording_def logged_def listed_def)
      next
        case None3: None
        with assms l Inr f g None have "downNetworks (recording c) p rv (s3, lg3) = (r, (s', lg'))"
          by (simp add: DownComposeProject_def FindComposeContainers_def recording_def logged_def listed_def)
        from downNetworks_recording [OF this] None None3 l Inr f' g' show ?thesis
          by (simp add: DownComposeProject_def FindComposeContainers_def)
      qed
    qed
  qed
qed

lemma StopComposeProject_recording:
  assumes "StopComposeProject (recording c) p (s, lg) = (r, (s', lg'))"
  shows "StopComposeProject c p s = (r, s')"
proof -
  obtain l s1 where l: "ContainerList c \<lparr>All = True, LabelFilter = projectLabel p\<rparr> s = (l, s1)"
    by (cases "ContainerList c \<lparr>All = True, LabelFilter = projectLabel p\<rparr> s")
  show ?thesis
  proof (cases l)
    case (Inl e)
    with assms l show ?thesis
      by (auto simp: StopComposeProject_def FindComposeContainers_def recording_def logged_def)
  next
    case (Inr cs)
    with assms l obtain lg1 where
      "forEach (stopContainer (recording c)) cs (s1, lg1) = (r, (s', lg'))"
      by (auto simp: StopComposeProject_def FindComposeContainers_def recording_def logged_def)
    from forEach_recording_result [where body = "stopContainer c", OF stopContainer_recording this]
    show ?thesis using l Inr by (simp add: StopComposeProject_def FindComposeContainers_def)
  qed
qed

subsection \<open>The log of a run\<close>

lemma forEach_recording:
  assumes step: "\<And>x s log. \<exists>r s'. body x (s, log) = (map_option (Errorf (m x)) r, (s', log @ [(g x, acted r)]))"
  shows "forEach body xs (s, log) = (res, (s', log')) \<Longrightarrow> \<exists>ext. log' = log @ ext \<and> loop_run g m xs res ext"
proof (induction xs arbitrary: s log)
  case Nil
  then show ?case by (simp add: loop_run_def dones_def)
next
  case (Cons x xs)
  obtain r s1 where b: "body x (s, log) = (map_option (Errorf (m x)) r, (s1, log @ [(g x, acted r)]))"
    using step by blast
  show ?case
  proof (cases r)
    case None
    with Cons.prems b have "forEach body xs (s1, log @ [(g x, Done)]) = (res, (s', log'))"
      by (simp add: acted_def)
    from Cons.IH [OF this] obtain ext where e: "log' = (log @ [(g x, Done)]) @ ext" "loop_run g m xs res ext"
      by blast
    from e(2) have "loop_run g m (x # xs) res ((g x, Done) # ext)"
      unfolding loop_run_def dones_def
    proof (elim disjE exE conjE)
      assume "res = None" "ext = map (\<lambda>x. (g x, Done)) xs"
      then show "res = None \<and> (g x, Done) # ext = map (\<lambda>x. (g x, Done)) (x # xs) \<or>
        (\<exists>j e. j < length (x # xs) \<and> res = Some (Errorf (m ((x # xs) ! j)) e) \<and>
           (g x, Done) # ext = map (\<lambda>x. (g x, Done)) (take j (x # xs)) @ [(g ((x # xs) ! j), Failed e)])"
        by simp
    next
      fix j e
      assume "j < length xs" "res = Some (Errorf (m (xs ! j)) e)"
         "ext = map (\<lambda>x. (g x, Done)) (take j xs) @ [(g (xs ! j), Failed e)]"
      then have "Suc j < length (x # xs) \<and> res = Some (Errorf (m ((x # xs) ! Suc j)) e) \<and>
           (g x, Done) # ext = map (\<lambda>x. (g x, Done)) (take (Suc j) (x # xs)) @ [(g ((x # xs) ! Suc j), Failed e)]"
        by simp
      then show "res = None \<and> (g x, Done) # ext = map (\<lambda>x. (g x, Done)) (x # xs) \<or>
        (\<exists>j e. j < length (x # xs) \<and> res = Some (Errorf (m ((x # xs) ! j)) e) \<and>
           (g x, Done) # ext = map (\<lambda>x. (g x, Done)) (take j (x # xs)) @ [(g ((x # xs) ! j), Failed e)])"
        by blast
    qed
    with e(1) show ?thesis by simp
  next
    case (Some e)
    with Cons.prems b have "res = Some (Errorf (m x) e)" "log' = log @ [(g x, Failed e)]"
      by (simp_all add: acted_def)
    then have "loop_run g m (x # xs) res [(g x, Failed e)]"
      unfolding loop_run_def dones_def by (intro disjI2 exI [of _ 0] exI [of _ e]) simp
    with \<open>log' = _\<close> show ?thesis by blast
  qed
qed

lemma loop_run_None: "loop_run g m xs None ext \<longleftrightarrow> ext = dones g xs"
  by (auto simp: loop_run_def)

lemma stop_loop_step:
  "\<exists>r s'. stopContainer (recording c) x (s, lg)
      = (map_option (Errorf (stopMsg x)) r, (s', lg @ [(stopCall x, acted r)]))"
proof -
  obtain r s1 where "ContainerStop c (ID x) None s = (r, s1)"
    by (cases "ContainerStop c (ID x) None s")
  then have "stopContainer (recording c) x (s, lg)
      = (map_option (Errorf (stopMsg x)) r, (s1, lg @ [(stopCall x, acted r)]))"
    by (cases r) (simp_all add: stopContainer_def recording_def logged_def stopCall_def stopMsg_def)
  then show ?thesis by blast
qed

lemma stop_loop:
  "forEach (stopContainer (recording c)) xs (s, lg) = (res, (s', lg'))
   \<Longrightarrow> \<exists>ext. lg' = lg @ ext \<and> loop_run stopCall stopMsg xs res ext"
  by (rule forEach_recording [where body = "stopContainer (recording c)", OF stop_loop_step])

lemma rm_loop_step:
  "\<exists>r s'. removeContainer (recording c) x (s, lg)
      = (map_option (Errorf (rmMsg x)) r, (s', lg @ [(rmCall x, acted r)]))"
proof -
  obtain r s1 where "ContainerRemove c (ID x) True s = (r, s1)"
    by (cases "ContainerRemove c (ID x) True s")
  then have "removeContainer (recording c) x (s, lg)
      = (map_option (Errorf (rmMsg x)) r, (s1, lg @ [(rmCall x, acted r)]))"
    by (cases r) (simp_all add: removeContainer_def recording_def logged_def rmCall_def rmMsg_def)
  then show ?thesis by blast
qed

lemma rm_loop:
  "forEach (removeContainer (recording c)) xs (s, lg) = (res, (s', lg'))
   \<Longrightarrow> \<exists>ext. lg' = lg @ ext \<and> loop_run rmCall rmMsg xs res ext"
  by (rule forEach_recording [where body = "removeContainer (recording c)", OF rm_loop_step])

lemma rmNet_loop_step:
  "\<exists>r s'. removeNetwork (recording c) x (s, lg)
      = (map_option (Errorf (rmNetMsg x)) r, (s', lg @ [(rmNetCall x, acted r)]))"
proof -
  obtain r s1 where "NetworkRemove c (ID_net x) s = (r, s1)"
    by (cases "NetworkRemove c (ID_net x) s")
  then have "removeNetwork (recording c) x (s, lg)
      = (map_option (Errorf (rmNetMsg x)) r, (s1, lg @ [(rmNetCall x, acted r)]))"
    by (cases r) (simp_all add: removeNetwork_def recording_def logged_def rmNetCall_def rmNetMsg_def)
  then show ?thesis by blast
qed

lemma rmNet_loop:
  "forEach (removeNetwork (recording c)) xs (s, lg) = (res, (s', lg'))
   \<Longrightarrow> \<exists>ext. lg' = lg @ ext \<and> loop_run rmNetCall rmNetMsg xs res ext"
  by (rule forEach_recording [where body = "removeNetwork (recording c)", OF rmNet_loop_step])

lemma rmVol_loop_step:
  "\<exists>r s'. removeVolume (recording c) x (s, lg)
      = (map_option (Errorf (rmVolMsg x)) r, (s', lg @ [(rmVolCall x, acted r)]))"
proof -
  obtain r s1 where "VolumeRemove c (Name_vol x) True s = (r, s1)"
    by (cases "VolumeRemove c (Name_vol x) True s")
  then have "removeVolume (recording c) x (s, lg)
      = (map_option (Errorf (rmVolMsg x)) r, (s1, lg @ [(rmVolCall x, acted r)]))"
    by (cases r) (simp_all add: removeVolume_def recording_def logged_def rmVolCall_def rmVolMsg_def)
  then show ?thesis by blast
qed

lemma rmVol_loop:
  "forEach (removeVolume (recording c)) xs (s, lg) = (res, (s', lg'))
   \<Longrightarrow> \<exists>ext. lg' = lg @ ext \<and> loop_run rmVolCall rmVolMsg xs res ext"
  by (rule forEach_recording [where body = "removeVolume (recording c)", OF rmVol_loop_step])

lemma downVolumes_run:
  assumes "downVolumes (recording c) p rv (s, lg) = (res, (s', lg'))"
  shows "\<exists>ext. lg' = lg @ ext \<and> vol_run p rv res ext"
proof (cases rv)
  case False
  with assms show ?thesis by (simp add: downVolumes_def vol_run_def)
next
  case True
  obtain r s1 where l: "VolumeList c \<lparr>LabelFilter_vol = projectLabel p\<rparr> s = (r, s1)"
    by (cases "VolumeList c \<lparr>LabelFilter_vol = projectLabel p\<rparr> s")
  show ?thesis
  proof (cases r)
    case (Inl e)
    with assms True l show ?thesis
      by (auto simp: downVolumes_def recording_def logged_def listed_def vol_run_def volListCall_def)
  next
    case (Inr vs)
    with assms True l
    have "forEach (removeVolume (recording c)) vs (s1, lg @ [(volListCall p, Volumes vs)]) = (res, (s', lg'))"
      by (simp add: downVolumes_def recording_def logged_def listed_def volListCall_def)
    from rmVol_loop [OF this] obtain ext where
      "lg' = (lg @ [(volListCall p, Volumes vs)]) @ ext" "loop_run rmVolCall rmVolMsg vs res ext"
      by blast
    with True show ?thesis by (auto simp: vol_run_def)
  qed
qed

lemma downNetworks_run:
  assumes "downNetworks (recording c) p rv (s, lg) = (res, (s', lg'))"
  shows "\<exists>ext. lg' = lg @ ext \<and> net_run p rv res ext"
proof -
  obtain r s1 where l: "NetworkList c \<lparr>LabelFilter_net = projectLabel p\<rparr> s = (r, s1)"
    by (cases "NetworkList c \<lparr>LabelFilter_net = projectLabel p\<rparr> s")
  show ?thesis
  proof (cases r)
    case (Inl e)
    with assms l show ?thesis
      by (auto simp: downNetworks_def recording_def logged_def listed_def net_run_def netListCall_def)
  next
    case (Inr ns)
    obtain r2 s2 lg2 where f: "forEach (removeNetwork (recording c)) ns (s1, lg @ [(netListCall p, Networks ns)]) = (r2, (s2, lg2))"
      by (metis surj_pair)
    from rmNet_loop [OF f] obtain ext1 where
      e1: "lg2 = (lg @ [(netListCall p, Networks ns)]) @ ext1" "loop_run rmNetCall rmNetMsg ns r2 ext1"
      by blast
    show ?thesis
    proof (cases r2)
      case (Some e)
      with assms l Inr f have "res = r2" "lg' = lg2"
        by (simp_all add: downNetworks_def recording_def logged_def listed_def netListCall_def)
      with e1 Some show ?thesis by (auto simp: net_run_def)
    next
      case None
      with assms l Inr f have "downVolumes (recording c) p rv (s2, lg2) = (res, (s', lg'))"
        by (simp add: downNetworks_def recording_def logged_def listed_def netListCall_def)
      from downVolumes_run [OF this] obtain ext2 where
        "lg' = lg2 @ ext2" "vol_run p rv res ext2" by blast
      moreover from e1 None have "ext1 = dones rmNetCall ns" by (simp add: loop_run_None)
      ultimately show ?thesis using e1(1)
        by (auto simp: net_run_def)
    qed
  qed
qed

lemma DownComposeProject_run:
  assumes "DownComposeProject (recording c) p rv (s, []) = (res, (s', lg))"
  shows "down_run p rv res lg"
proof -
  obtain r s1 where l: "ContainerList c \<lparr>All = True, LabelFilter = projectLabel p\<rparr> s = (r, s1)"
    by (cases "ContainerList c \<lparr>All = True, LabelFilter = projectLabel p\<rparr> s")
  show ?thesis
  proof (cases r)
    case (Inl e)
    with assms l show ?thesis
      by (auto simp: DownComposeProject_def FindComposeContainers_def recording_def logged_def
            listed_def down_run_def ctrListCall_def)
  next
    case (Inr cs)
    obtain r2 s2 lg2 where f: "forEach (stopContainer (recording c)) cs (s1, [(ctrListCall p, Containers cs)]) = (r2, (s2, lg2))"
      by (metis surj_pair)
    from stop_loop [OF f] obtain ext1 where
      e1: "lg2 = [(ctrListCall p, Containers cs)] @ ext1" "loop_run stopCall stopMsg cs r2 ext1"
      by blast
    show ?thesis
    proof (cases r2)
      case (Some e)
      with assms l Inr f have "res = r2" "lg = lg2"
        by (simp_all add: DownComposeProject_def FindComposeContainers_def recording_def logged_def
              listed_def ctrListCall_def)
      with e1 Some show ?thesis by (auto simp: down_run_def)
    next
      case None
      then have x1: "ext1 = dones stopCall cs" using e1 by (simp add: loop_run_None)
      obtain r3 s3 lg3 where g: "forEach (removeContainer (recording c)) cs (s2, lg2) = (r3, (s3, lg3))"
        by (metis surj_pair)
      from rm_loop [OF g] obtain ext2 where
        e2: "lg3 = lg2 @ ext2" "loop_run rmCall rmMsg cs r3 ext2"
        by blast
      show ?thesis
      proof (cases r3)
        case (Some e)
        with assms l Inr f g None have "res = r3" "lg = lg3"
          by (simp_all add: DownComposeProject_def FindComposeContainers_def recording_def logged_def
                listed_def ctrListCall_def)
        with e1 e2 x1 Some show ?thesis by (auto simp: down_run_def)
      next
        case None2: None
        then have x2: "ext2 = dones rmCall cs" using e2 by (simp add: loop_run_None)
        from assms l Inr f g None None2
        have "downNetworks (recording c) p rv (s3, lg3) = (res, (s', lg))"
          by (simp add: DownComposeProject_def FindComposeContainers_def recording_def logged_def
                listed_def ctrListCall_def)
        from downNetworks_run [OF this] obtain ext3 where
          "lg = lg3 @ ext3" "net_run p rv res ext3" by blast
        with e1 e2 x1 x2 show ?thesis by (auto simp: down_run_def)
      qed
    qed
  qed
qed

lemma StopComposeProject_run:
  assumes "StopComposeProject (recording c) p (s, []) = (res, (s', lg))"
  shows "stop_run p res lg"
proof -
  obtain r s1 where l: "ContainerList c \<lparr>All = True, LabelFilter = projectLabel p\<rparr> s = (r, s1)"
    by (cases "ContainerList c \<lparr>All = True, LabelFilter = projectLabel p\<rparr> s")
  show ?thesis
  proof (cases r)
    case (Inl e)
    with assms l show ?thesis
      by (auto simp: StopComposeProject_def FindComposeContainers_def recording_def logged_def
            listed_def stop_run_def ctrListCall_def)
  next
    case (Inr cs)
    with assms l
    have "forEach (stopContainer (recording c)) cs (s1, [(ctrListCall p, Containers cs)]) = (res, (s', lg))"
      by (simp add: StopComposeProject_def FindComposeContainers_def recording_def logged_def
            listed_def ctrListCall_def)
    from stop_loop [OF this] show ?thesis by (auto simp: stop_run_def)
  qed
qed

subsection \<open>What a log can hold\<close>

lemma map_fst_dones [simp]: "map fst (dones g xs) = map g xs"
  by (simp add: dones_def comp_def)

lemma length_dones [simp]: "length (dones g xs) = length xs"
  by (simp add: dones_def)

lemma in_dones: "e \<in> set (dones g xs) \<Longrightarrow> snd e = Done \<and> fst e \<in> g ` set xs"
  by (auto simp: dones_def)

lemma not_in_dones [simp]:
  "(c, Containers xs) \<notin> set (dones g ys)"
  "(c, Networks ns) \<notin> set (dones g ys)"
  "(c, Volumes vs) \<notin> set (dones g ys)"
  "(c, Failed e) \<notin> set (dones g ys)"
  by (auto simp: dones_def)

lemma dones_not_failed: "\<forall>e \<in> set (dones g xs). \<not> isFailed (snd e)"
  by (auto simp: dones_def isFailed_def)

lemma fails_last_append:
  assumes "\<forall>e \<in> set pre. \<not> isFailed (snd e)" "fails_last ext"
  shows "fails_last (pre @ ext)"
  using assms by (auto simp: fails_last_def butlast_append dest: in_set_butlastD)

lemma fails_last_nth:
  assumes "fails_last lg" "i < length lg" "isFailed (snd (lg ! i))"
  shows "Suc i = length lg"
proof (rule ccontr)
  assume "Suc i \<noteq> length lg"
  with assms(2) have "i < length (butlast lg)" by simp
  then have "butlast lg ! i \<in> set (butlast lg)" by (rule nth_mem)
  moreover from \<open>i < length (butlast lg)\<close> have "butlast lg ! i = lg ! i" by (rule nth_butlast)
  ultimately show False using assms(1,3) by (auto simp: fails_last_def)
qed

lemma loop_run_calls:
  assumes "loop_run g m xs res ext"
  shows "\<exists>k. k \<le> length xs \<and> map fst ext = map g (take k xs) \<and> (res = None \<longrightarrow> k = length xs)"
  using assms unfolding loop_run_def
proof (elim disjE exE conjE)
  assume "res = None" "ext = dones g xs"
  then show ?thesis by (intro exI [of _ "length xs"]) simp
next
  fix j e
  assume "j < length xs" "res = Some (Errorf (m (xs ! j)) e)"
     "ext = dones g (take j xs) @ [(g (xs ! j), Failed e)]"
  then show ?thesis
    by (intro exI [of _ "Suc j"]) (simp add: take_Suc_conv_app_nth)
qed

lemma loop_run_prefix:
  assumes "loop_run g m xs res ext"
  shows "prefix (map fst ext) (map g xs)" "res = None \<Longrightarrow> map fst ext = map g xs"
proof -
  from loop_run_calls [OF assms] obtain k where
    k: "map fst ext = map g (take k xs)" "res = None \<longrightarrow> k = length xs" by blast
  show "prefix (map fst ext) (map g xs)"
    unfolding k(1) by (rule map_mono_prefix) (rule take_is_prefix)
  show "res = None \<Longrightarrow> map fst ext = map g xs" using k by simp
qed

lemma loop_run_set:
  assumes "loop_run g m xs res ext" "e \<in> set ext"
  shows "fst e \<in> g ` set xs \<and> (snd e = Done \<or> isFailed (snd e))"
  using assms unfolding loop_run_def
  by (auto simp: isFailed_def dest!: in_dones in_set_takeD)

lemma loop_run_res:
  assumes "loop_run g m xs res ext"
  shows "res = None \<longleftrightarrow> (\<forall>e \<in> set ext. \<not> isFailed (snd e))"
  using assms unfolding loop_run_def
  by (auto simp: isFailed_def dest!: in_dones)

lemma loop_run_no_lists:
  assumes "loop_run g m xs res ext"
  shows "(c, Containers ys) \<notin> set ext" "(c, Networks ns) \<notin> set ext" "(c, Volumes vs) \<notin> set ext"
  using assms unfolding loop_run_def by auto

lemma loop_run_Some:
  assumes "loop_run g m xs res ext" "res \<noteq> None"
  shows "\<exists>j e. j < length xs \<and> res = Some (Errorf (m (xs ! j)) e) \<and> length ext = Suc j
            \<and> last ext = (g (xs ! j), Failed e)"
  using assms unfolding loop_run_def by auto

lemma loop_run_error:
  assumes "loop_run g m xs res ext" "res = Some err"
  shows "\<exists>msg e. err = Errorf msg e \<and> ext \<noteq> [] \<and> last ext \<in> (\<lambda>x. (g x, Failed e)) ` set xs"
  using assms unfolding loop_run_def by auto

lemma loop_run_last_container:
  assumes "loop_run g m xs res ext" "ext \<noteq> []" "container_failure cid e (last ext)"
  shows "\<exists>j. j < length xs \<and> res = Some (Errorf (m (xs ! j)) e) \<and> length ext = Suc j
            \<and> last ext = (g (xs ! j), Failed e)"
  using assms unfolding loop_run_def
  by (auto simp: container_failure_def dones_def last_map)

lemma loop_run_fails_last:
  assumes "loop_run g m xs res ext"
  shows "fails_last ext"
  using assms unfolding loop_run_def
proof (elim disjE exE conjE)
  assume "ext = dones g xs"
  then show ?thesis
    using dones_not_failed [of g xs] by (auto simp: fails_last_def dest: in_set_butlastD)
next
  fix j e assume "ext = dones g (take j xs) @ [(g (xs ! j), Failed e)]"
  then show ?thesis
    using dones_not_failed [of g "take j xs"] by (simp add: fails_last_def)
qed

lemma vol_run_calls:
  assumes "vol_run p rv res ext"
  shows "\<exists>vs. prefix (map fst ext) (if rv then volListCall p # map rmVolCall vs else [])
            \<and> (res = None \<longrightarrow> map fst ext = (if rv then volListCall p # map rmVolCall vs else []))
            \<and> (\<forall>vs'. (volListCall p, Volumes vs') \<in> set ext \<longrightarrow> vs' = vs)"
  using assms unfolding vol_run_def
proof (elim disjE exE conjE)
  assume "\<not> rv" "res = None" "ext = []"
  then show ?thesis by simp
next
  fix e assume "rv" "res = Some (Errorf ''failed to list volumes: '' e)" "ext = [(volListCall p, Failed e)]"
  then show ?thesis by (intro exI [of _ "[]"]) simp
next
  fix vs ext1
  assume a: "rv" "ext = (volListCall p, Volumes vs) # ext1" "loop_run rmVolCall rmVolMsg vs res ext1"
  from a loop_run_prefix [OF a(3)] loop_run_no_lists [OF a(3)] show ?thesis
    by (intro exI [of _ vs]) auto
qed

lemma vol_run_no_lists:
  assumes "vol_run p rv res ext" "e \<in> set ext"
  shows "isVolumeCall (fst e) \<and> rv \<and> (\<forall>xs. snd e \<noteq> Containers xs) \<and> (\<forall>xs. snd e \<noteq> Networks xs)"
  using assms unfolding vol_run_def
  by (auto simp: isVolumeCall_def volListCall_def rmVolCall_def isFailed_def
        dest!: loop_run_set [where g = rmVolCall])

lemma vol_run_res:
  assumes "vol_run p rv res ext"
  shows "res = None \<longleftrightarrow> (\<forall>e \<in> set ext. \<not> isFailed (snd e))"
  using assms unfolding vol_run_def
proof (elim disjE exE conjE)
  assume "res = None" "ext = []"
  then show ?thesis by simp
next
  fix e assume "res = Some (Errorf ''failed to list volumes: '' e)" "ext = [(volListCall p, Failed e)]"
  then show ?thesis by (simp add: isFailed_def)
next
  fix vs ext1 assume a: "ext = (volListCall p, Volumes vs) # ext1" "loop_run rmVolCall rmVolMsg vs res ext1"
  from loop_run_res [OF a(2)] a(1) show ?thesis by (simp add: isFailed_def)
qed

lemma vol_run_error:
  assumes "vol_run p rv res ext" "res = Some err"
  shows "\<exists>msg e c. err = Errorf msg e \<and> ext \<noteq> [] \<and> last ext = (c, Failed e) \<and> isVolumeCall c"
  using assms unfolding vol_run_def
proof (elim disjE exE conjE)
  assume "res = None" "res = Some err"
  then show ?thesis by simp
next
  fix e assume "res = Some (Errorf ''failed to list volumes: '' e)" "ext = [(volListCall p, Failed e)]" "res = Some err"
  then show ?thesis by (auto simp: isVolumeCall_def volListCall_def)
next
  fix vs ext1 assume a: "ext = (volListCall p, Volumes vs) # ext1" "loop_run rmVolCall rmVolMsg vs res ext1" "res = Some err"
  from loop_run_error [OF a(2,3)] a(1) show ?thesis
    by (auto simp: isVolumeCall_def rmVolCall_def)
qed

lemma vol_run_fails_last:
  assumes "vol_run p rv res ext"
  shows "fails_last ext"
  using assms unfolding vol_run_def
proof (elim disjE exE conjE)
  assume "ext = []"
  then show ?thesis by (simp add: fails_last_def)
next
  fix e assume "ext = [(volListCall p, Failed e)]"
  then show ?thesis by (simp add: fails_last_def)
next
  fix vs ext1 assume a: "ext = (volListCall p, Volumes vs) # ext1" "loop_run rmVolCall rmVolMsg vs res ext1"
  have "fails_last ([(volListCall p, Volumes vs)] @ ext1)"
    by (rule fails_last_append) (simp_all add: isFailed_def loop_run_fails_last [OF a(2)])
  with a show ?thesis by simp
qed

lemma net_run_calls:
  assumes "net_run p rv res ext"
  shows "\<exists>ns vs. prefix (map fst ext) (netListCall p # map rmNetCall ns @ (if rv then volListCall p # map rmVolCall vs else []))
            \<and> (res = None \<longrightarrow> map fst ext = netListCall p # map rmNetCall ns @ (if rv then volListCall p # map rmVolCall vs else []))
            \<and> (\<forall>ns'. (netListCall p, Networks ns') \<in> set ext \<longrightarrow> ns' = ns)
            \<and> (\<forall>vs'. (volListCall p, Volumes vs') \<in> set ext \<longrightarrow> vs' = vs)"
  using assms unfolding net_run_def
proof (elim disjE exE conjE)
  fix e assume "res = Some (Errorf ''failed to list networks: '' e)" "ext = [(netListCall p, Failed e)]"
  then show ?thesis
    by (intro exI [of _ "[]"]) (simp add: netListCall_def volListCall_def)
next
  fix ns ext1
  assume a: "ext = (netListCall p, Networks ns) # ext1" "res \<noteq> None" "loop_run rmNetCall rmNetMsg ns res ext1"
  note n = loop_run_no_lists [OF a(3)]
  from loop_run_prefix(1) [OF a(3)] have "prefix (map fst ext1) (map rmNetCall ns @ (if rv then volListCall p # map rmVolCall [] else []))"
    by (rule prefix_order.trans) simp
  with a n show ?thesis
    by (intro exI [of _ ns] exI [of _ "[]"]) (auto simp: netListCall_def volListCall_def)
next
  fix ns ext2
  assume a: "ext = (netListCall p, Networks ns) # dones rmNetCall ns @ ext2" "vol_run p rv res ext2"
  from vol_run_calls [OF a(2)] obtain vs where
    v: "prefix (map fst ext2) (if rv then volListCall p # map rmVolCall vs else [])"
       "res = None \<longrightarrow> map fst ext2 = (if rv then volListCall p # map rmVolCall vs else [])"
       "\<forall>vs'. (volListCall p, Volumes vs') \<in> set ext2 \<longrightarrow> vs' = vs"
    by (elim exE conjE) (rule that)
  have n: "\<And>c xs. (c, Networks xs) \<notin> set ext2"
    using vol_run_no_lists [OF a(2)] by fastforce
  from a(1) v n show ?thesis
    by (intro exI [of _ ns] exI [of _ vs]) (auto simp: netListCall_def volListCall_def)
qed

lemma net_run_set:
  assumes "net_run p rv res ext" "e \<in> set ext"
  shows "(isNetworkCall (fst e) \<or> isVolumeCall (fst e) \<and> rv) \<and> (\<forall>xs. snd e \<noteq> Containers xs)"
  using assms unfolding net_run_def
  by (auto simp: isNetworkCall_def netListCall_def rmNetCall_def isFailed_def
        dest!: loop_run_set [where g = rmNetCall] vol_run_no_lists in_dones)

lemma net_run_res:
  assumes "net_run p rv res ext"
  shows "res = None \<longleftrightarrow> (\<forall>e \<in> set ext. \<not> isFailed (snd e))"
  using assms unfolding net_run_def
proof (elim disjE exE conjE)
  fix e assume "res = Some (Errorf ''failed to list networks: '' e)" "ext = [(netListCall p, Failed e)]"
  then show ?thesis by (simp add: isFailed_def)
next
  fix ns ext1 assume a: "ext = (netListCall p, Networks ns) # ext1" "loop_run rmNetCall rmNetMsg ns res ext1"
  from loop_run_res [OF a(2)] a(1) show ?thesis by (simp add: isFailed_def)
next
  fix ns ext2 assume a: "ext = (netListCall p, Networks ns) # dones rmNetCall ns @ ext2" "vol_run p rv res ext2"
  from vol_run_res [OF a(2)] a(1) dones_not_failed [of rmNetCall ns] show ?thesis
    by (auto simp: isFailed_def)
qed

lemma net_run_error:
  assumes "net_run p rv res ext" "res = Some err"
  shows "\<exists>msg e c. err = Errorf msg e \<and> ext \<noteq> [] \<and> last ext = (c, Failed e)
            \<and> (isNetworkCall c \<or> isVolumeCall c)"
  using assms unfolding net_run_def
proof (elim disjE exE conjE)
  fix e assume "res = Some (Errorf ''failed to list networks: '' e)" "ext = [(netListCall p, Failed e)]" "res = Some err"
  then show ?thesis by (auto simp: isNetworkCall_def netListCall_def)
next
  fix ns ext1 assume a: "ext = (netListCall p, Networks ns) # ext1" "loop_run rmNetCall rmNetMsg ns res ext1" "res = Some err"
  from loop_run_error [OF a(2,3)] a(1) show ?thesis
    by (auto simp: isNetworkCall_def rmNetCall_def)
next
  fix ns ext2 assume a: "ext = (netListCall p, Networks ns) # dones rmNetCall ns @ ext2" "vol_run p rv res ext2" "res = Some err"
  from vol_run_error [OF a(2,3)] a(1) show ?thesis by auto
qed

lemma net_run_first:
  assumes "net_run p rv res ext"
  shows "\<exists>r rest. ext = (netListCall p, r) # rest"
  using assms unfolding net_run_def by auto

lemma net_run_nonempty: "net_run p rv res ext \<Longrightarrow> ext \<noteq> []"
  by (auto simp: net_run_def)

lemma net_run_fails_last:
  assumes "net_run p rv res ext"
  shows "fails_last ext"
  using assms unfolding net_run_def
proof (elim disjE exE conjE)
  fix e assume "ext = [(netListCall p, Failed e)]"
  then show ?thesis by (simp add: fails_last_def)
next
  fix ns ext1 assume a: "ext = (netListCall p, Networks ns) # ext1" "loop_run rmNetCall rmNetMsg ns res ext1"
  have "fails_last ([(netListCall p, Networks ns)] @ ext1)"
    by (rule fails_last_append) (simp_all add: isFailed_def loop_run_fails_last [OF a(2)])
  with a show ?thesis by simp
next
  fix ns ext2 assume a: "ext = (netListCall p, Networks ns) # dones rmNetCall ns @ ext2" "vol_run p rv res ext2"
  have "fails_last (((netListCall p, Networks ns) # dones rmNetCall ns) @ ext2)"
    by (rule fails_last_append) (use dones_not_failed in \<open>auto simp: isFailed_def vol_run_fails_last [OF a(2)]\<close>)
  with a show ?thesis by simp
qed




lemma down_run_fails_last:
  assumes "down_run p rv res lg"
  shows "fails_last lg"
  using assms unfolding down_run_def
proof (elim disjE exE conjE)
  fix e assume "lg = [(ctrListCall p, Failed e)]"
  then show ?thesis by (simp add: fails_last_def)
next
  fix cs ext1 assume a: "lg = (ctrListCall p, Containers cs) # ext1" "loop_run stopCall stopMsg cs res ext1"
  have "fails_last ([(ctrListCall p, Containers cs)] @ ext1)"
    by (rule fails_last_append) (simp_all add: isFailed_def loop_run_fails_last [OF a(2)])
  with a show ?thesis by simp
next
  fix cs ext1 assume a: "lg = (ctrListCall p, Containers cs) # dones stopCall cs @ ext1" "loop_run rmCall rmMsg cs res ext1"
  have "fails_last (((ctrListCall p, Containers cs) # dones stopCall cs) @ ext1)"
    by (rule fails_last_append) (use dones_not_failed in \<open>auto simp: isFailed_def loop_run_fails_last [OF a(2)]\<close>)
  with a show ?thesis by simp
next
  fix cs ext2 assume a: "lg = (ctrListCall p, Containers cs) # dones stopCall cs @ dones rmCall cs @ ext2" "net_run p rv res ext2"
  have "fails_last (((ctrListCall p, Containers cs) # dones stopCall cs @ dones rmCall cs) @ ext2)"
    by (rule fails_last_append) (use dones_not_failed in \<open>auto simp: isFailed_def net_run_fails_last [OF a(2)]\<close>)
  with a show ?thesis by simp
qed

lemma stop_run_fails_last:
  assumes "stop_run p res lg"
  shows "fails_last lg"
  using assms unfolding stop_run_def
proof (elim disjE exE conjE)
  fix e assume "lg = [(ctrListCall p, Failed e)]"
  then show ?thesis by (simp add: fails_last_def)
next
  fix cs ext1 assume a: "lg = (ctrListCall p, Containers cs) # ext1" "loop_run stopCall stopMsg cs res ext1"
  have "fails_last ([(ctrListCall p, Containers cs)] @ ext1)"
    by (rule fails_last_append) (simp_all add: isFailed_def loop_run_fails_last [OF a(2)])
  with a show ?thesis by simp
qed

lemma stopMsg_names: "sublist (ID c) (stopMsg c)"
  unfolding stopMsg_def by (rule sublist_appendI)

lemma rmMsg_names: "sublist (ID c) (rmMsg c)"
  unfolding rmMsg_def by (rule sublist_appendI)

lemma down_run_container_failure:
  assumes "down_run p rv res lg" "lg \<noteq> []" "container_failure cid e (last lg)"
  shows "(\<exists>msg. res = Some (Errorf msg e) \<and> sublist cid msg)
       \<and> (\<exists>cs k. lg ! 0 = (ctrListCall p, Containers cs) \<and> k < length cs \<and> cid = ID (cs ! k)
             \<and> (length lg = Suc (Suc k) \<or> length lg = Suc (Suc (length cs + k))))"
  using assms(1) unfolding down_run_def
proof (elim disjE exE conjE)
  fix e' assume "lg = [(ctrListCall p, Failed e')]"
  with assms(3) show ?thesis by (simp add: container_failure_def ctrListCall_def)
next
  fix cs ext1 assume a: "lg = (ctrListCall p, Containers cs) # ext1" "res \<noteq> None" "loop_run stopCall stopMsg cs res ext1"
  from loop_run_Some [OF a(3,2)] obtain j e' where
    j: "j < length cs" "res = Some (Errorf (stopMsg (cs ! j)) e')" "length ext1 = Suc j"
       "last ext1 = (stopCall (cs ! j), Failed e')" by blast
  from j(3) have "ext1 \<noteq> []" by auto
  with a(1) j(4) assms(3) have "cid = ID (cs ! j)" "e' = e"
    by (auto simp: container_failure_def stopCall_def)
  with a(1) j show ?thesis
    by (auto simp: stopMsg_names intro!: exI [of _ cs] exI [of _ j])
next
  fix cs ext1 assume a: "lg = (ctrListCall p, Containers cs) # dones stopCall cs @ ext1" "res \<noteq> None" "loop_run rmCall rmMsg cs res ext1"
  from loop_run_Some [OF a(3,2)] obtain j e' where
    j: "j < length cs" "res = Some (Errorf (rmMsg (cs ! j)) e')" "length ext1 = Suc j"
       "last ext1 = (rmCall (cs ! j), Failed e')" by blast
  from j(3) have "ext1 \<noteq> []" by auto
  with a(1) j(4) assms(3) have "cid = ID (cs ! j)" "e' = e"
    by (auto simp: container_failure_def rmCall_def)
  with a(1) j show ?thesis
    by (auto simp: rmMsg_names intro!: exI [of _ cs] exI [of _ j])
next
  fix cs ext2 assume a: "lg = (ctrListCall p, Containers cs) # dones stopCall cs @ dones rmCall cs @ ext2" "net_run p rv res ext2"
  from net_run_nonempty [OF a(2)] a(1) have "last lg = last ext2" "last ext2 \<in> set ext2" by simp_all
  with net_run_set [OF a(2), of "last ext2"] assms(3) show ?thesis
    by (auto simp: container_failure_def isNetworkCall_def isVolumeCall_def)
qed

lemma stop_run_container_failure:
  assumes "stop_run p res lg" "lg \<noteq> []" "container_failure cid e (last lg)"
  shows "(\<exists>msg. res = Some (Errorf msg e) \<and> sublist cid msg)
       \<and> (\<exists>cs k. lg ! 0 = (ctrListCall p, Containers cs) \<and> k < length cs \<and> cid = ID (cs ! k)
             \<and> length lg = Suc (Suc k))"
  using assms(1) unfolding stop_run_def
proof (elim disjE exE conjE)
  fix e' assume "lg = [(ctrListCall p, Failed e')]"
  with assms(3) show ?thesis by (simp add: container_failure_def ctrListCall_def)
next
  fix cs ext1 assume a: "lg = (ctrListCall p, Containers cs) # ext1" "loop_run stopCall stopMsg cs res ext1"
  from a(1) assms(3) have "ext1 \<noteq> []" by (auto simp: container_failure_def)
  with a(1) assms(3) have "container_failure cid e (last ext1)" by simp
  from loop_run_last_container [OF a(2) \<open>ext1 \<noteq> []\<close> this] obtain j where
    j: "j < length cs" "res = Some (Errorf (stopMsg (cs ! j)) e)" "length ext1 = Suc j"
       "last ext1 = (stopCall (cs ! j), Failed e)" by blast
  with \<open>container_failure cid e (last ext1)\<close> have "cid = ID (cs ! j)"
    by (auto simp: container_failure_def stopCall_def)
  with a(1) j show ?thesis
    by (auto simp: stopMsg_names intro!: exI [of _ cs] exI [of _ j])
qed

subsection \<open>Order, failure and the empty project\<close>




text \<open>
  Claim C3.  In a run of \<^verbatim>\<open>StopComposeProject\<close> or of \<^verbatim>\<open>DownComposeProject\<close>, a
  failed stop or remove call for a container is the last call of the run: no later
  container is stopped or removed and no later phase starts.  The error returned wraps
  the call's error behind a message that holds the container's identifier, and the
  container is the \<open>k\<close>-th of the listed ones, where \<open>k\<close> calls of the same phase went
  through before.  With three containers and a failure for the second, the third is
  never stopped.
\<close>

theorem fail_fast:
  assumes run: "DownComposeProject (recording client) p rv (s, []) = (res, (s', lg))
              \<or> StopComposeProject (recording client) p (s, []) = (res, (s', lg))"
      and i: "i < length lg"
      and f: "container_failure cid e (lg ! i)"
  shows "Suc i = length lg
       \<and> (\<exists>msg. res = Some (Errorf msg e) \<and> sublist cid msg)
       \<and> (\<exists>cs k. lg ! 0 = (ctrListCall p, Containers cs) \<and> k < length cs \<and> cid = ID (cs ! k)
             \<and> (i = Suc k \<or> i = Suc (length cs + k)))"
proof -
  from f have fl: "isFailed (snd (lg ! i))"
    by (auto simp: container_failure_def isFailed_def)
  from i have ne: "lg \<noteq> []" by auto
  from run show ?thesis
  proof
    assume d: "DownComposeProject (recording client) p rv (s, []) = (res, (s', lg))"
    note r = DownComposeProject_run [OF d]
    from fails_last_nth [OF down_run_fails_last [OF r] i fl] have l: "Suc i = length lg" .
    then have "i = length lg - 1" by simp
    with ne have "last lg = lg ! i" by (simp add: last_conv_nth)
    with f have "container_failure cid e (last lg)" by simp
    from down_run_container_failure [OF r ne this] l show ?thesis by auto
  next
    assume d: "StopComposeProject (recording client) p (s, []) = (res, (s', lg))"
    note r = StopComposeProject_run [OF d]
    from fails_last_nth [OF stop_run_fails_last [OF r] i fl] have l: "Suc i = length lg" .
    then have "i = length lg - 1" by simp
    with ne have "last lg = lg ! i" by (simp add: last_conv_nth)
    with f have "container_failure cid e (last lg)" by simp
    from stop_run_container_failure [OF r ne this] l show ?thesis by auto
  qed
qed

lemma stub_stop_run:
  "StopComposeProject
     (recording (stub_client [container ''a1'', container ''b2'', container ''c3''] (Inr []) [] [''b2'']))
     ''proj'' ((), [])
   = (Some (Errorf ''failed to stop container b2: '' (ErrorString ''timeout'')), (),
      [(ctrListCall ''proj'', Containers [container ''a1'', container ''b2'', container ''c3'']),
       (ContainerStopCall ''a1'' None, Done),
       (ContainerStopCall ''b2'' None, Failed (ErrorString ''timeout''))])"
  by (simp add: StopComposeProject_def FindComposeContainers_def stopContainer_def recording_def
        logged_def listed_def acted_def stub_client_def container_def ctrListCall_def)

theorem fail_fast_witness:
  "StopComposeProject
     (recording (stub_client [container ''a1'', container ''b2'', container ''c3''] (Inr []) [] [''b2'']))
     ''proj'' ((), [])
   = (Some (Errorf ''failed to stop container b2: '' (ErrorString ''timeout'')), (),
      [(ctrListCall ''proj'', Containers [container ''a1'', container ''b2'', container ''c3'']),
       (ContainerStopCall ''a1'' None, Done),
       (ContainerStopCall ''b2'' None, Failed (ErrorString ''timeout''))])
   \<and> container_failure ''b2'' (ErrorString ''timeout'')
        ([(ctrListCall ''proj'', Containers [container ''a1'', container ''b2'', container ''c3'']),
          (ContainerStopCall ''a1'' None, Done),
          (ContainerStopCall ''b2'' None, Failed (ErrorString ''timeout''))] ! 2)
   \<and> sublist ''b2'' ''failed to stop container b2: ''
   \<and> (ContainerStopCall ''c3'' None, Done) \<notin> set
        [(ctrListCall ''proj'', Containers [container ''a1'', container ''b2'', container ''c3'']),
         (ContainerStopCall ''a1'' None, Done),
         (ContainerStopCall ''b2'' None, Failed (ErrorString ''timeout''))]"
proof -
  have f: "container_failure ''b2'' (ErrorString ''timeout'')
        ([(ctrListCall ''proj'', Containers [container ''a1'', container ''b2'', container ''c3'']),
          (ContainerStopCall ''a1'' None, Done),
          (ContainerStopCall ''b2'' None, Failed (ErrorString ''timeout''))] ! 2)"
    by (simp add: container_failure_def)
  from fail_fast [OF disjI2 [OF stub_stop_run] _ f] stub_stop_run f
  show ?thesis by (auto simp: ctrListCall_def)
qed

text \<open>
  Claim C4, as stated, fails: with an empty container list, \<^verbatim>\<open>DownComposeProject\<close>
  goes on to the networks, and an error of the network list is returned.
\<close>

theorem empty_project_counterexample:
  "fst (ContainerList (stub_client [] (Inl (ErrorString ''daemon unreachable'')) [] [])
          \<lparr>All = True, LabelFilter = projectLabel ''proj''\<rparr> ()) = Inr []
   \<and> fst (DownComposeProject (stub_client [] (Inl (ErrorString ''daemon unreachable'')) [] []) ''proj'' False ())
       = Some (Errorf ''failed to list networks: '' (ErrorString ''daemon unreachable''))"
  by (simp add: DownComposeProject_def FindComposeContainers_def downNetworks_def stub_client_def)

text \<open>
  Claim C4, amended.  When the container list is empty, \<^verbatim>\<open>StopComposeProject\<close>
  succeeds, and \<^verbatim>\<open>DownComposeProject\<close> is the network and volume part run from the
  state the list call left: it stops and removes nothing and always makes the network
  list call; its calls are an initial part of the network list, a remove for each network
  that list returned and, only with \<open>removeVolumes\<close>, the volume list and a forced
  remove for each volume that list returned, and the whole of it on success.  It succeeds
  exactly when none of these calls fails, and an error it returns wraps the error of the
  failed network or volume call, its last call.  Recording the calls changes neither the
  result nor the client's state.
\<close>

theorem empty_project:
  assumes "fst (ContainerList client \<lparr>All = True, LabelFilter = projectLabel p\<rparr> s) = Inr []"
  shows "fst (StopComposeProject client p s) = None
       \<and> DownComposeProject client p rv s
           = downNetworks client p rv (snd (ContainerList client \<lparr>All = True, LabelFilter = projectLabel p\<rparr> s))
       \<and> (\<forall>res s' lg. DownComposeProject (recording client) p rv (s, []) = (res, (s', lg)) \<longrightarrow>
             DownComposeProject client p rv s = (res, s')
           \<and> (\<exists>r rest. lg = (ctrListCall p, Containers []) # (netListCall p, r) # rest)
           \<and> (\<exists>ns vs. prefix (map fst lg) (down_calls p rv [] ns vs)
                     \<and> (res = None \<longrightarrow> map fst lg = down_calls p rv [] ns vs)
                     \<and> (\<forall>ns'. (netListCall p, Networks ns') \<in> set lg \<longrightarrow> ns' = ns)
                     \<and> (\<forall>vs'. (volListCall p, Volumes vs') \<in> set lg \<longrightarrow> vs' = vs))
           \<and> (res = None \<longleftrightarrow> (\<forall>e \<in> set lg. \<not> isFailed (snd e)))
           \<and> (\<forall>err. res = Some err \<longrightarrow>
                 (\<exists>msg e c. err = Errorf msg e \<and> last lg = (c, Failed e)
                     \<and> (isNetworkCall c \<or> isVolumeCall c))))"
proof (intro conjI allI impI)
  obtain s1 where l: "ContainerList client \<lparr>All = True, LabelFilter = projectLabel p\<rparr> s = (Inr [], s1)"
    using assms by (cases "ContainerList client \<lparr>All = True, LabelFilter = projectLabel p\<rparr> s") auto
  show "fst (StopComposeProject client p s) = None"
    using l by (simp add: StopComposeProject_def FindComposeContainers_def)
  show "DownComposeProject client p rv s
           = downNetworks client p rv (snd (ContainerList client \<lparr>All = True, LabelFilter = projectLabel p\<rparr> s))"
    using l by (simp add: DownComposeProject_def FindComposeContainers_def)
  fix res s' lg
  assume d: "DownComposeProject (recording client) p rv (s, []) = (res, (s', lg))"
  show "DownComposeProject client p rv s = (res, s')"
    using d by (rule DownComposeProject_recording)
  have "DownComposeProject (recording client) p rv (s, [])
          = downNetworks (recording client) p rv (s1, [(ctrListCall p, Containers [])])"
    using l by (simp add: DownComposeProject_def FindComposeContainers_def recording_def logged_def
                  listed_def ctrListCall_def)
  with d have "downNetworks (recording client) p rv (s1, [(ctrListCall p, Containers [])]) = (res, (s', lg))"
    by simp
  from downNetworks_run [OF this] obtain ext where
    e: "lg = [(ctrListCall p, Containers [])] @ ext" "net_run p rv res ext" by blast
  from net_run_first [OF e(2)] e(1)
  show "\<exists>r rest. lg = (ctrListCall p, Containers []) # (netListCall p, r) # rest" by auto
  from net_run_calls [OF e(2)] obtain ns vs where
    n: "prefix (map fst ext) (netListCall p # map rmNetCall ns @ (if rv then volListCall p # map rmVolCall vs else []))"
       "res = None \<longrightarrow> map fst ext = netListCall p # map rmNetCall ns @ (if rv then volListCall p # map rmVolCall vs else [])"
       "\<forall>ns'. (netListCall p, Networks ns') \<in> set ext \<longrightarrow> ns' = ns"
       "\<forall>vs'. (volListCall p, Volumes vs') \<in> set ext \<longrightarrow> vs' = vs"
    by (elim exE conjE) (rule that)
  have t: "\<forall>ns'. (netListCall p, Networks ns') \<in> set lg \<longrightarrow> ns' = ns"
          "\<forall>vs'. (volListCall p, Volumes vs') \<in> set lg \<longrightarrow> vs' = vs"
    using n(3,4) e(1) by (auto simp: ctrListCall_def netListCall_def volListCall_def)
  from n(1,2) e(1) t
  show "\<exists>ns vs. prefix (map fst lg) (down_calls p rv [] ns vs)
                     \<and> (res = None \<longrightarrow> map fst lg = down_calls p rv [] ns vs)
                     \<and> (\<forall>ns'. (netListCall p, Networks ns') \<in> set lg \<longrightarrow> ns' = ns)
                     \<and> (\<forall>vs'. (volListCall p, Volumes vs') \<in> set lg \<longrightarrow> vs' = vs)"
    by (intro exI [of _ ns] exI [of _ vs]) (simp add: down_calls_def)
  from net_run_res [OF e(2)] e(1)
  show "res = None \<longleftrightarrow> (\<forall>e \<in> set lg. \<not> isFailed (snd e))"
    by (simp add: isFailed_def)
  fix err assume "res = Some err"
  from net_run_error [OF e(2) this] e(1)
  show "\<exists>msg e c. err = Errorf msg e \<and> last lg = (c, Failed e) \<and> (isNetworkCall c \<or> isVolumeCall c)"
    by auto
qed

lemma stub_empty_list:
  "fst (ContainerList (stub_client [] (Inr [\<lparr>ID_net = ''net1'', Name_net = ''proj_default''\<rparr>])
                         [\<lparr>Name_vol = ''proj_data'', Labels_vol = []\<rparr>] [])
          \<lparr>All = True, LabelFilter = projectLabel ''proj''\<rparr> ()) = Inr []"
  by (simp add: stub_client_def)

lemma stub_empty_run:
  "DownComposeProject (recording (stub_client [] (Inr [\<lparr>ID_net = ''net1'', Name_net = ''proj_default''\<rparr>])
                         [\<lparr>Name_vol = ''proj_data'', Labels_vol = []\<rparr>] []))
     ''proj'' True ((), [])
   = (None, (),
      [(ctrListCall ''proj'', Containers []),
       (netListCall ''proj'', Networks [\<lparr>ID_net = ''net1'', Name_net = ''proj_default''\<rparr>]),
       (NetworkRemoveCall ''net1'', Done),
       (volListCall ''proj'', Volumes [\<lparr>Name_vol = ''proj_data'', Labels_vol = []\<rparr>]),
       (VolumeRemoveCall ''proj_data'' True, Done)])"
  by (simp add: DownComposeProject_def FindComposeContainers_def downNetworks_def downVolumes_def
        removeNetwork_def removeVolume_def recording_def logged_def listed_def acted_def stub_client_def
        ctrListCall_def netListCall_def volListCall_def)

theorem empty_project_witness:
  "fst (ContainerList (stub_client [] (Inr [\<lparr>ID_net = ''net1'', Name_net = ''proj_default''\<rparr>])
                         [\<lparr>Name_vol = ''proj_data'', Labels_vol = []\<rparr>] [])
          \<lparr>All = True, LabelFilter = projectLabel ''proj''\<rparr> ()) = Inr []
   \<and> fst (StopComposeProject (stub_client [] (Inr [\<lparr>ID_net = ''net1'', Name_net = ''proj_default''\<rparr>])
                         [\<lparr>Name_vol = ''proj_data'', Labels_vol = []\<rparr>] []) ''proj'' ()) = None
   \<and> DownComposeProject (recording (stub_client [] (Inr [\<lparr>ID_net = ''net1'', Name_net = ''proj_default''\<rparr>])
                         [\<lparr>Name_vol = ''proj_data'', Labels_vol = []\<rparr>] []))
        ''proj'' True ((), [])
      = (None, (),
         [(ctrListCall ''proj'', Containers []),
          (netListCall ''proj'', Networks [\<lparr>ID_net = ''net1'', Name_net = ''proj_default''\<rparr>]),
          (NetworkRemoveCall ''net1'', Done),
          (volListCall ''proj'', Volumes [\<lparr>Name_vol = ''proj_data'', Labels_vol = []\<rparr>]),
          (VolumeRemoveCall ''proj_data'' True, Done)])
   \<and> DownComposeProject (stub_client [] (Inr [\<lparr>ID_net = ''net1'', Name_net = ''proj_default''\<rparr>])
                         [\<lparr>Name_vol = ''proj_data'', Labels_vol = []\<rparr>] [])
        ''proj'' True () = (None, ())
   \<and> [ctrListCall ''proj'', netListCall ''proj'', NetworkRemoveCall ''net1'', volListCall ''proj'',
       VolumeRemoveCall ''proj_data'' True]
      = down_calls ''proj'' True [] [\<lparr>ID_net = ''net1'', Name_net = ''proj_default''\<rparr>]
          [\<lparr>Name_vol = ''proj_data'', Labels_vol = []\<rparr>]"
proof -
  note t = empty_project [OF stub_empty_list, of True]
  from t have a: "fst (StopComposeProject (stub_client [] (Inr [\<lparr>ID_net = ''net1'', Name_net = ''proj_default''\<rparr>])
                         [\<lparr>Name_vol = ''proj_data'', Labels_vol = []\<rparr>] []) ''proj'' ()) = None"
    by (rule conjunct1)
  from t [THEN conjunct2, THEN conjunct2, rule_format, OF stub_empty_run]
  have b: "DownComposeProject (stub_client [] (Inr [\<lparr>ID_net = ''net1'', Name_net = ''proj_default''\<rparr>])
                         [\<lparr>Name_vol = ''proj_data'', Labels_vol = []\<rparr>] [])
        ''proj'' True () = (None, ())"
    by (rule conjunct1)
  from t [THEN conjunct2, THEN conjunct2, rule_format, OF stub_empty_run]
  have "\<exists>ns vs. prefix (map fst
          [(ctrListCall ''proj'', Containers []),
           (netListCall ''proj'', Networks [\<lparr>ID_net = ''net1'', Name_net = ''proj_default''\<rparr>]),
           (NetworkRemoveCall ''net1'', Done),
           (volListCall ''proj'', Volumes [\<lparr>Name_vol = ''proj_data'', Labels_vol = []\<rparr>]),
           (VolumeRemoveCall ''proj_data'' True, Done)]) (down_calls ''proj'' True [] ns vs)
      \<and> ((None :: error option) = None \<longrightarrow> map fst
          [(ctrListCall ''proj'', Containers []),
           (netListCall ''proj'', Networks [\<lparr>ID_net = ''net1'', Name_net = ''proj_default''\<rparr>]),
           (NetworkRemoveCall ''net1'', Done),
           (volListCall ''proj'', Volumes [\<lparr>Name_vol = ''proj_data'', Labels_vol = []\<rparr>]),
           (VolumeRemoveCall ''proj_data'' True, Done)]
         = down_calls ''proj'' True [] ns vs)
      \<and> (\<forall>ns'. (netListCall ''proj'', Networks ns') \<in> set
          [(ctrListCall ''proj'', Containers []),
           (netListCall ''proj'', Networks [\<lparr>ID_net = ''net1'', Name_net = ''proj_default''\<rparr>]),
           (NetworkRemoveCall ''net1'', Done),
           (volListCall ''proj'', Volumes [\<lparr>Name_vol = ''proj_data'', Labels_vol = []\<rparr>]),
           (VolumeRemoveCall ''proj_data'' True, Done)] \<longrightarrow> ns' = ns)
      \<and> (\<forall>vs'. (volListCall ''proj'', Volumes vs') \<in> set
          [(ctrListCall ''proj'', Containers []),
           (netListCall ''proj'', Networks [\<lparr>ID_net = ''net1'', Name_net = ''proj_default''\<rparr>]),
           (NetworkRemoveCall ''net1'', Done),
           (volListCall ''proj'', Volumes [\<lparr>Name_vol = ''proj_data'', Labels_vol = []\<rparr>]),
           (VolumeRemoveCall ''proj_data'' True, Done)] \<longrightarrow> vs' = vs)"
    by (elim conjE)
  then obtain ns vs where
    imp: "(None :: error option) = None \<longrightarrow> map fst
          [(ctrListCall ''proj'', Containers []),
           (netListCall ''proj'', Networks [\<lparr>ID_net = ''net1'', Name_net = ''proj_default''\<rparr>]),
           (NetworkRemoveCall ''net1'', Done),
           (volListCall ''proj'', Volumes [\<lparr>Name_vol = ''proj_data'', Labels_vol = []\<rparr>]),
           (VolumeRemoveCall ''proj_data'' True, Done)]
         = down_calls ''proj'' True [] ns vs"
    and tn: "\<forall>ns'. (netListCall ''proj'', Networks ns') \<in> set
          [(ctrListCall ''proj'', Containers []),
           (netListCall ''proj'', Networks [\<lparr>ID_net = ''net1'', Name_net = ''proj_default''\<rparr>]),
           (NetworkRemoveCall ''net1'', Done),
           (volListCall ''proj'', Volumes [\<lparr>Name_vol = ''proj_data'', Labels_vol = []\<rparr>]),
           (VolumeRemoveCall ''proj_data'' True, Done)] \<longrightarrow> ns' = ns"
    and tv: "\<forall>vs'. (volListCall ''proj'', Volumes vs') \<in> set
          [(ctrListCall ''proj'', Containers []),
           (netListCall ''proj'', Networks [\<lparr>ID_net = ''net1'', Name_net = ''proj_default''\<rparr>]),
           (NetworkRemoveCall ''net1'', Done),
           (volListCall ''proj'', Volumes [\<lparr>Name_vol = ''proj_data'', Labels_vol = []\<rparr>]),
           (VolumeRemoveCall ''proj_data'' True, Done)] \<longrightarrow> vs' = vs"
    by (elim exE conjE) (rule that)
  from imp have eq: "map fst
          [(ctrListCall ''proj'', Containers []),
           (netListCall ''proj'', Networks [\<lparr>ID_net = ''net1'', Name_net = ''proj_default''\<rparr>]),
           (NetworkRemoveCall ''net1'', Done),
           (volListCall ''proj'', Volumes [\<lparr>Name_vol = ''proj_data'', Labels_vol = []\<rparr>]),
           (VolumeRemoveCall ''proj_data'' True, Done)]
         = down_calls ''proj'' True [] ns vs"
    by (rule mp) (rule refl)
  from tn [rule_format, of "[\<lparr>ID_net = ''net1'', Name_net = ''proj_default''\<rparr>]"]
  have ns: "ns = [\<lparr>ID_net = ''net1'', Name_net = ''proj_default''\<rparr>]"
    by simp
  from tv [rule_format, of "[\<lparr>Name_vol = ''proj_data'', Labels_vol = []\<rparr>]"]
  have vs: "vs = [\<lparr>Name_vol = ''proj_data'', Labels_vol = []\<rparr>]"
    by simp
  from eq have c: "[ctrListCall ''proj'', netListCall ''proj'', NetworkRemoveCall ''net1'', volListCall ''proj'',
       VolumeRemoveCall ''proj_data'' True]
      = down_calls ''proj'' True [] [\<lparr>ID_net = ''net1'', Name_net = ''proj_default''\<rparr>]
          [\<lparr>Name_vol = ''proj_data'', Labels_vol = []\<rparr>]"
    unfolding ns vs by simp
  from stub_empty_list a stub_empty_run b c show ?thesis
    by (intro conjI)
qed

end
